(* ===== verification/Prelude.thy ===== *)
theory Prelude
  imports Complex_Main "HOL-Library.Word" "HOL-Library.Signed_Division" "HOL-Library.Code_Target_Nat"
begin

text \<open>
  Shared vocabulary of the CFBasic development: the C library behaviour the
  sources rely on (the \<open>ctype.h\<close> character classes of the C locale, the
  conversions of a \<open>double\<close> to \<open>int\<close>, \<open>uint16_t\<close>, \<open>uint8_t\<close> and
  \<open>char\<close> as x86-64 code generated by gcc performs them), the type names of the
  model, and the collections of lemmas the component theories share.
  C strings are modelled as \<open>string\<close> (a list of bytes); the terminating NUL is
  the end of the list, and an embedded NUL ends the C string early, which
  \<open>c_char_at\<close> reproduces. A C \<open>double\<close> is modelled as \<open>real\<close>: the
  arithmetic the interpreter does on it (sum, comparison, truncation) is exact
  here, and the rounding of IEEE binary64 is not modelled.
\<close>

named_theorems c_char_simps "evaluation rules for the ctype.h classes of concrete characters"
named_theorems rem_progress "facts that a lexing or evaluation step never grows the unread input"

type_synonym u8 = "8 word"
type_synonym u16 = "16 word"

abbreviation NUL :: char where "NUL \<equiv> CHR 0x00"
abbreviation LF :: char where "LF \<equiv> CHR 0x0A"
abbreviation CR :: char where "CR \<equiv> CHR 0x0D"
abbreviation TAB :: char where "TAB \<equiv> CHR 0x09"

section \<open>ctype.h in the C locale\<close>

definition c_isdigit :: "char \<Rightarrow> bool" where
  "c_isdigit c \<longleftrightarrow> (48::nat) \<le> of_char c \<and> of_char c \<le> (57::nat)"

definition c_isupper :: "char \<Rightarrow> bool" where
  "c_isupper c \<longleftrightarrow> (65::nat) \<le> of_char c \<and> of_char c \<le> (90::nat)"

definition c_islower :: "char \<Rightarrow> bool" where
  "c_islower c \<longleftrightarrow> (97::nat) \<le> of_char c \<and> of_char c \<le> (122::nat)"

definition c_isalpha :: "char \<Rightarrow> bool" where
  "c_isalpha c \<longleftrightarrow> c_isupper c \<or> c_islower c"

definition c_isalnum :: "char \<Rightarrow> bool" where
  "c_isalnum c \<longleftrightarrow> c_isalpha c \<or> c_isdigit c"

definition c_toupper :: "char \<Rightarrow> char" where
  "c_toupper c = (if c_islower c then char_of (of_char c - (32::nat)) else c)"

lemmas char_of_eval = char_of_def bit_simps

declare c_isdigit_def [c_char_simps] c_isupper_def [c_char_simps] c_islower_def [c_char_simps]
  c_isalpha_def [c_char_simps] c_isalnum_def [c_char_simps] c_toupper_def [c_char_simps]

lemma c_isdigit_not_NUL [simp]: "c_isdigit c \<Longrightarrow> c \<noteq> NUL"
  by (auto simp: c_isdigit_def)

lemma c_isalpha_not_NUL [simp]: "c_isalpha c \<Longrightarrow> c \<noteq> NUL"
  by (auto simp: c_isalpha_def c_isupper_def c_islower_def)

lemma c_isalnum_not_NUL [simp]: "c_isalnum c \<Longrightarrow> c \<noteq> NUL"
  by (auto simp: c_isalnum_def c_isalpha_def c_isupper_def c_islower_def c_isdigit_def)

lemma of_char_c_toupper_lower:
  assumes "c_islower c"
  shows "of_char (c_toupper c) = (of_char c - 32 :: nat)"
proof -
  have "of_char c - 32 < (256::nat)"
    using nat_of_char_less_256 [of c] by linarith
  then show ?thesis using assms by (simp add: c_toupper_def)
qed

lemma c_toupper_not_lower: "\<not> c_islower (c_toupper c)"
  using of_char_c_toupper_lower [of c]
  by (cases "c_islower c") (auto simp: c_toupper_def c_islower_def)

lemma c_toupper_idem [simp]: "c_toupper (c_toupper c) = c_toupper c"
  using c_toupper_not_lower [of c] by (simp add: c_toupper_def [of "c_toupper c"])

lemma c_toupper_NUL [simp]: "c_toupper NUL = NUL"
  by (simp add: c_toupper_def c_islower_def)

lemma c_toupper_eq_NUL_iff [simp]: "c_toupper c = NUL \<longleftrightarrow> c = NUL"
proof
  assume u: "c_toupper c = NUL"
  show "c = NUL"
  proof (cases "c_islower c")
    case True
    then have "of_char (c_toupper c) = (of_char c - 32 :: nat)"
      by (rule of_char_c_toupper_lower)
    with u True show ?thesis by (simp add: c_islower_def)
  next
    case False
    with u show ?thesis by (simp add: c_toupper_def)
  qed
qed simp

lemma NUL_eq_c_toupper_iff [simp]: "NUL = c_toupper c \<longleftrightarrow> c = NUL"
  using c_toupper_eq_NUL_iff [of c] by (auto simp del: c_toupper_eq_NUL_iff)

section \<open>Conversions of a double\<close>

text \<open>
  C converts a \<open>double\<close> to an integer type by truncation towards zero
  (\<open>c_trunc\<close>). When the truncated value does not fit an \<open>int\<close>, the
  conversion instruction gcc emits on x86-64 (\<open>cvttsd2si\<close>) yields
  \<open>INT_MIN\<close>; conversions to \<open>uint16_t\<close>, \<open>uint8_t\<close> and \<open>char\<close> go through
  that \<open>int\<close> and keep its low bits.
\<close>

definition c_trunc :: "real \<Rightarrow> int" where
  "c_trunc x = (if 0 \<le> x then \<lfloor>x\<rfloor> else \<lceil>x\<rceil>)"

definition INT_MIN :: int where "INT_MIN = - (2 ^ 31)"
definition INT_MAX :: int where "INT_MAX = 2 ^ 31 - 1"

definition double_to_int :: "real \<Rightarrow> int" where
  "double_to_int x = (let t = c_trunc x in if INT_MIN \<le> t \<and> t \<le> INT_MAX then t else INT_MIN)"

definition double_to_u16 :: "real \<Rightarrow> u16" where
  "double_to_u16 x = word_of_int (double_to_int x)"

definition double_to_u8 :: "real \<Rightarrow> u8" where
  "double_to_u8 x = word_of_int (double_to_int x)"

definition double_to_char :: "real \<Rightarrow> char" where
  "double_to_char x = char_of (double_to_int x)"

lemma c_trunc_of_int [simp]: "c_trunc (of_int n) = n"
  by (simp add: c_trunc_def)

lemma double_to_int_of_int [simp]:
  "INT_MIN \<le> n \<Longrightarrow> n \<le> INT_MAX \<Longrightarrow> double_to_int (of_int n) = n"
  by (simp add: double_to_int_def)

lemma double_to_int_bounds: "INT_MIN \<le> double_to_int x \<and> double_to_int x \<le> INT_MAX"
  by (auto simp: double_to_int_def Let_def INT_MIN_def INT_MAX_def)

lemma c_trunc_abs_le: "\<bar>real_of_int (c_trunc x)\<bar> \<le> \<bar>x\<bar>"
  by (auto simp: c_trunc_def)

lemma uint_double_to_u16: "uint (double_to_u16 x) = double_to_int x mod 65536"
  by (simp add: double_to_u16_def uint_word_of_int)

lemma uint_double_to_u8: "uint (double_to_u8 x) = double_to_int x mod 256"
  by (simp add: double_to_u8_def uint_word_of_int)

section \<open>Lists and options\<close>

text \<open>The byte of a C string at an index: NUL past its end.\<close>

definition c_char_at :: "string \<Rightarrow> nat \<Rightarrow> char" where
  "c_char_at s i = (if i < length s then s ! i else NUL)"

lemma c_char_at_not_NUL: "c_char_at s i \<noteq> NUL \<Longrightarrow> i < length s"
  by (auto simp: c_char_at_def split: if_splits)

lemma c_char_at_Cons_0 [simp]: "c_char_at (c # s) 0 = c"
  by (simp add: c_char_at_def)

lemma c_char_at_Nil [simp]: "c_char_at [] i = NUL"
  by (simp add: c_char_at_def)

end
