(* ===== verification/Utils.thy ===== *)
theory Utils
  imports Prelude
begin

text \<open>
  The helpers of \<open>src/utils.c\<close>: the case conversions and case-insensitive
  comparison of C strings that the lexer and the variable store use, the string
  duplication, \<open>warning\<close>, the line reader \<open>read_line\<close>, and the
  budgeted allocator (\<open>safe_malloc\<close>, \<open>safe_realloc\<close>, \<open>safe_free\<close>) with its
  two globals \<open>total_memory_limit\<close> and \<open>memory_used\<close> of type \<open>size_t\<close>
  (a 64-bit word: the sums in the budget checks wrap).
\<close>

section \<open>C strings\<close>

text \<open>The C string a byte list denotes: the bytes before the first NUL.\<close>

definition cstr :: "string \<Rightarrow> string" where
  "cstr s = takeWhile (\<lambda>c. c \<noteq> NUL) s"

definition str_upper :: "string \<Rightarrow> string" where
  "str_upper s = map c_toupper (cstr s)"

text \<open>
  \<open>str_compare_nocase\<close> walks both strings while both current bytes are not NUL
  and returns the difference of the first upper-cased bytes that differ, or of the
  two bytes where one string ends.
\<close>

definition c_head :: "string \<Rightarrow> char" where
  "c_head s = c_char_at s 0"

definition upper_diff :: "char \<Rightarrow> char \<Rightarrow> int" where
  "upper_diff c1 c2 = int (of_char (c_toupper c1)) - int (of_char (c_toupper c2))"

fun str_compare_nocase :: "string \<Rightarrow> string \<Rightarrow> int" where
  "str_compare_nocase (c1 # s1) (c2 # s2) =
     (if c1 \<noteq> NUL \<and> c2 \<noteq> NUL then
        (if c_toupper c1 \<noteq> c_toupper c2 then upper_diff c1 c2
         else str_compare_nocase s1 s2)
      else upper_diff c1 c2)"
| "str_compare_nocase [] s2 = upper_diff NUL (c_head s2)"
| "str_compare_nocase (c1 # s1) [] = upper_diff c1 NUL"

text \<open>The reference notion: two names are the same up to letter case.\<close>

definition same_name :: "string \<Rightarrow> string \<Rightarrow> bool" where
  "same_name a b \<longleftrightarrow> str_upper a = str_upper b"

lemma cstr_Nil [simp]: "cstr [] = []"
  by (simp add: cstr_def)

lemma cstr_Cons [simp]: "cstr (c # s) = (if c = NUL then [] else c # cstr s)"
  by (simp add: cstr_def)

lemma str_upper_Nil [simp]: "str_upper [] = []"
  by (simp add: str_upper_def)

lemma str_upper_Cons [simp]:
  "str_upper (c # s) = (if c = NUL then [] else c_toupper c # str_upper s)"
  by (simp add: str_upper_def)

lemma upper_diff_eq_0 [simp]: "upper_diff c1 c2 = 0 \<longleftrightarrow> c_toupper c1 = c_toupper c2"
  by (simp add: upper_diff_def)

lemma upper_diff_swap: "upper_diff c2 c1 = - upper_diff c1 c2"
  by (simp add: upper_diff_def)

section \<open>The allocation budget\<close>

record mem_state =
  total_memory_limit :: "64 word"
  memory_used :: "64 word"

datatype alloc_outcome = Allocated | Out_of_memory | System_out_of_memory

definition init_memory :: "64 word \<Rightarrow> mem_state" where
  "init_memory limit = \<lparr>total_memory_limit = limit, memory_used = 0\<rparr>"

text \<open>
  \<open>safe_malloc\<close>: the budget check on the wrapping sum, then the platform
  allocator, whose failure (\<open>sys_ok = False\<close>) ends the process with exit code 1.
\<close>

definition safe_malloc :: "bool \<Rightarrow> mem_state \<Rightarrow> 64 word \<Rightarrow> alloc_outcome \<times> mem_state" where
  "safe_malloc sys_ok m n =
     (if memory_used m + n > total_memory_limit m then (Out_of_memory, m)
      else if \<not> sys_ok then (System_out_of_memory, m)
      else (Allocated, m\<lparr>memory_used := memory_used m + n\<rparr>))"

definition safe_realloc :: "bool \<Rightarrow> mem_state \<Rightarrow> 64 word \<Rightarrow> 64 word \<Rightarrow> alloc_outcome \<times> mem_state" where
  "safe_realloc sys_ok m old_size new_size =
     (if memory_used m - old_size + new_size > total_memory_limit m then (Out_of_memory, m)
      else if \<not> sys_ok then (System_out_of_memory, m)
      else (Allocated, m\<lparr>memory_used := memory_used m - old_size + new_size\<rparr>))"

text \<open>\<open>safe_free\<close> releases the block but leaves \<open>memory_used\<close> as it is.\<close>

definition safe_free :: "mem_state \<Rightarrow> mem_state" where
  "safe_free m = m"

definition get_free_memory :: "mem_state \<Rightarrow> 64 word" where
  "get_free_memory m = total_memory_limit m - memory_used m"

text \<open>\<open>str_duplicate\<close>: \<open>NULL\<close> for \<open>NULL\<close>, otherwise a budgeted block of
  \<open>strlen + 1\<close> bytes holding the C string, \<open>NULL\<close> when the budget refuses it.\<close>

definition str_duplicate :: "bool \<Rightarrow> mem_state \<Rightarrow> string option \<Rightarrow> alloc_outcome \<times> string option \<times> mem_state" where
  "str_duplicate sys_ok m s =
     (case s of
        None \<Rightarrow> (Allocated, None, m)
      | Some t \<Rightarrow>
          (let (r, m') = safe_malloc sys_ok m (of_nat (length (cstr t) + 1)) in
           (r, if r = Allocated then Some (cstr t) else None, m')))"

text \<open>\<open>warning\<close> with a message that holds no conversion: the bytes for \<open>stderr\<close>.\<close>

definition warning :: "string \<Rightarrow> string" where
  "warning msg = ''WARNING: '' @ cstr msg @ [LF]"

text \<open>\<open>read_line\<close>: the prompt written to \<open>stdout\<close>, then \<open>getline\<close> on the
  input bytes: \<open>NULL\<close> at end of input, otherwise the line without its newline
  (as a C string) and the input after it.\<close>

definition read_line :: "string option \<Rightarrow> string \<Rightarrow> string \<times> string option \<times> string" where
  "read_line prompt inp =
     (let out = (case prompt of None \<Rightarrow> [] | Some p \<Rightarrow> cstr p) in
      if inp = [] then (out, None, [])
      else (out, Some (cstr (takeWhile (\<lambda>c. c \<noteq> LF) inp)), drop 1 (dropWhile (\<lambda>c. c \<noteq> LF) inp)))"

text \<open>A sequence of allocator calls, the platform allocator always succeeding.\<close>

datatype mem_op = Malloc "64 word" | Free

fun mem_step :: "mem_state \<Rightarrow> mem_op \<Rightarrow> mem_state" where
  "mem_step m (Malloc n) = snd (safe_malloc True m n)"
| "mem_step m Free = safe_free m"

fun mem_run :: "mem_state \<Rightarrow> mem_op list \<Rightarrow> mem_state" where
  "mem_run m [] = m"
| "mem_run m (a # ops) = mem_run (mem_step m a) ops"

section \<open>Properties\<close>

text \<open>
  the case-insensitive comparison is zero exactly on names with the same upper-case
  spelling: the loop of \<open>str_compare_nocase\<close> implements \<open>same_name\<close>.
\<close>

theorem str_compare_nocase_eq_0:
  "str_compare_nocase s1 s2 = 0 \<longleftrightarrow> same_name s1 s2"
proof (induction s1 s2 rule: str_compare_nocase.induct)
  case (1 c1 s1 c2 s2)
  then show ?case by (auto simp: same_name_def)
next
  case (2 s2)
  then show ?case
    by (cases s2) (auto simp: same_name_def c_head_def)
next
  case (3 c1 s1)
  then show ?case by (auto simp: same_name_def)
qed

lemma str_compare_nocase_swap:
  "str_compare_nocase s2 s1 = - str_compare_nocase s1 s2"
proof (induction s1 s2 rule: str_compare_nocase.induct)
  case (1 c1 s1 c2 s2)
  then show ?case by (auto simp: upper_diff_def)
next
  case (2 s2)
  then show ?case by (cases s2) (auto simp: c_head_def upper_diff_def)
next
  case (3 c1 s1)
  then show ?case by (auto simp: c_head_def upper_diff_def)
qed

lemma same_name_refl [simp]: "same_name a a"
  by (simp add: same_name_def)

lemma same_name_sym: "same_name a b \<Longrightarrow> same_name b a"
  by (simp add: same_name_def)

lemma same_name_trans: "same_name a b \<Longrightarrow> same_name b c \<Longrightarrow> same_name a c"
  by (simp add: same_name_def)

lemma read_line_Cons:
  assumes "LF \<notin> set l" "NUL \<notin> set l"
  shows "read_line None (l @ LF # rest) = ([], Some l, rest)"
proof -
  have "takeWhile (\<lambda>c. c \<noteq> LF) (l @ LF # rest) = l" "dropWhile (\<lambda>c. c \<noteq> LF) (l @ LF # rest) = LF # rest"
    using assms(1) by (induction l) auto
  moreover have "cstr l = l" using assms(2) by (auto simp: cstr_def takeWhile_eq_all_conv)
  ultimately show ?thesis by (simp add: read_line_def)
qed

lemma word_add_unat: "unat (a::64 word) + unat b < 2 ^ 64 \<Longrightarrow> unat (a + b) = unat a + unat b"
  by (simp add: unat_word_ariths)

lemma mem_run_cycles:
  "unat (memory_used m) + unat n * k \<le> unat (total_memory_limit m) \<Longrightarrow>
   mem_run m (concat (replicate k [Malloc n, Free])) = m\<lparr>memory_used := memory_used m + of_nat k * n\<rparr>"
proof (induction k arbitrary: m)
  case 0
  then show ?case by simp
next
  case (Suc k)
  have lt: "unat (total_memory_limit m) < 2 ^ 64" using unsigned_less [of "total_memory_limit m"] by simp
  have add: "unat (memory_used m + n) = unat (memory_used m) + unat n"
    using Suc.prems lt by (intro word_add_unat) (simp add: algebra_simps)
  then have ok: "\<not> memory_used m + n > total_memory_limit m"
    using Suc.prems by (simp add: word_less_nat_alt algebra_simps)
  let ?m1 = "m\<lparr>memory_used := memory_used m + n\<rparr>"
  have "unat (memory_used ?m1) + unat n * k \<le> unat (total_memory_limit ?m1)"
    using Suc.prems add by (simp add: algebra_simps)
  then have "mem_run ?m1 (concat (replicate k [Malloc n, Free])) =
             ?m1\<lparr>memory_used := memory_used ?m1 + of_nat k * n\<rparr>"
    by (rule Suc.IH)
  then show ?case using ok by (simp add: safe_malloc_def safe_free_def algebra_simps)
qed

text \<open>
  C38: \<open>safe_free\<close> does not return the budget: after \<open>k\<close> blocks of \<open>n\<close> bytes
  have each been allocated and freed, an allocation of \<open>n\<close> bytes that a fresh
  allocator grants fails with OUT OF MEMORY as soon as \<open>(k + 1) * n\<close> exceeds the
  limit, although no block is in use.
\<close>

theorem freed_blocks_exhaust_budget:
  assumes "unat n \<le> unat L" "unat n * k \<le> unat L" "unat L < unat n * (k + 1)"
    "unat n * (k + 1) < 2 ^ 64"
  shows "fst (safe_malloc True (init_memory L) n) = Allocated \<and>
         fst (safe_malloc True (mem_run (init_memory L) (concat (replicate k [Malloc n, Free]))) n) = Out_of_memory"
proof -
  have run: "mem_run (init_memory L) (concat (replicate k [Malloc n, Free])) = init_memory L\<lparr>memory_used := of_nat k * n\<rparr>"
    using mem_run_cycles [of "init_memory L" n k] assms(2) by (simp add: init_memory_def algebra_simps)
  have lt: "unat L < 2 ^ 64" using unsigned_less [of L] by simp
  have n0: "0 < unat n" using assms(3) by (cases "unat n") simp_all
  then have "1 * k \<le> unat n * k" by (intro mult_le_mono1) simp
  then have "k \<le> unat L" using assms(2) by linarith
  then have uk: "unat (of_nat k :: 64 word) = k" using lt by (simp only: unat_of_nat) simp
  have "unat (of_nat k * n) = unat n * k"
    using assms(2) lt uk by (simp only: unat_word_ariths) (simp add: mult.commute)
  moreover have "unat (of_nat k * n + n) = (unat (of_nat k * n) + unat n) mod 2 ^ 64"
    by (simp only: unat_word_ariths(1)) simp
  ultimately have "unat (of_nat k * n + n) = unat n * (k + 1)"
    using assms(4) by (simp add: algebra_simps)
  then have "of_nat k * n + n > L" using assms(3) by (simp only: word_less_nat_alt)
  moreover have "\<not> n > L" using assms(1) by (simp add: word_less_nat_alt)
  ultimately show ?thesis using run by (simp add: safe_malloc_def init_memory_def add.commute)
qed 
lemma freed_blocks_exhaust_budget_witness:
  "fst (safe_malloc True (init_memory 10) 4) = Allocated \<and>
   fst (safe_malloc True (mem_run (init_memory 10) (concat (replicate 2 [Malloc 4, Free]))) 4) = Out_of_memory"
  using freed_blocks_exhaust_budget [of 4 10 2] by simp

end
