(* ===== verification/ProgramStore.thy ===== *)
theory ProgramStore
  imports Utils
begin

text \<open>
  The program store of \<open>src/interpreter.c\<close>: the singly linked list
  \<open>interp->program\<close> of \<open>ProgramLine\<close> nodes is the HOL list of
  \<open>program_line\<close> records in list order (the \<open>next\<close> pointers). The
  operations \<open>program_add_line\<close>, \<open>program_delete_line\<close>,
  \<open>program_find_line\<close>, \<open>program_clear\<close> and the selection that
  \<open>interpreter_list\<close> prints are functions on that list; the successor of a node
  (its \<open>next\<close> pointer, which the run loop compares) is \<open>line_successor\<close>.
  The abstract view is a map from line numbers to texts (\<open>program_map\<close>), and
  the invariant is that the numbers are strictly ascending (\<open>program_ok\<close>).
\<close>

record program_line =
  line_number :: int
  line_text :: string

type_synonym program = "program_line list"

section \<open>Operations\<close>

fun program_delete_line :: "program \<Rightarrow> int \<Rightarrow> program" where
  "program_delete_line [] n = []"
| "program_delete_line (l # ls) n =
     (if line_number l = n then ls else l # program_delete_line ls n)"

text \<open>
  The insertion of \<open>program_add_line\<close>: before the head if the list is empty or
  the head's number is larger, otherwise after the last node whose successor's number
  is smaller.
\<close>

fun insert_walk :: "program_line \<Rightarrow> program \<Rightarrow> program" where
  "insert_walk new [] = [new]"
| "insert_walk new (l # ls) =
     (if line_number l < line_number new then l # insert_walk new ls else new # l # ls)"

definition insert_line :: "program_line \<Rightarrow> program \<Rightarrow> program" where
  "insert_line new prog =
     (case prog of
        [] \<Rightarrow> [new]
      | l # ls \<Rightarrow> if line_number l > line_number new then new # prog else l # insert_walk new ls)"

definition program_add_line :: "program \<Rightarrow> int \<Rightarrow> string \<Rightarrow> program" where
  "program_add_line prog n txt =
     (let p = program_delete_line prog n in
      if cstr txt = [] then p else insert_line \<lparr>line_number = n, line_text = cstr txt\<rparr> p)"

fun program_find_line :: "program \<Rightarrow> int \<Rightarrow> program_line option" where
  "program_find_line [] n = None"
| "program_find_line (l # ls) n =
     (if line_number l = n then Some l
      else if line_number l > n then None
      else program_find_line ls n)"

definition program_clear :: "program \<Rightarrow> program" where
  "program_clear prog = []"

text \<open>The lines \<open>interpreter_list\<close> prints, in list order.\<close>

definition list_selected :: "int \<Rightarrow> int \<Rightarrow> program_line \<Rightarrow> bool" where
  "list_selected start stop l \<longleftrightarrow> line_number l \<ge> start \<and> (stop = -1 \<or> line_number l \<le> stop)"

definition listed_lines :: "program \<Rightarrow> int \<Rightarrow> int \<Rightarrow> program" where
  "listed_lines prog start stop = filter (list_selected start stop) prog"

text \<open>
  The node after the node numbered \<open>n\<close>: \<open>Some\<close> the successor, \<open>None\<close> for the
  \<open>NULL\<close> pointer of the last node (and for a number that is not in the list).
\<close>

fun line_successor :: "program \<Rightarrow> int \<Rightarrow> program_line option" where
  "line_successor [] n = None"
| "line_successor (l # ls) n =
     (if line_number l = n then (case ls of [] \<Rightarrow> None | l' # _ \<Rightarrow> Some l')
      else line_successor ls n)"

section \<open>Abstraction and invariant\<close>

definition program_map :: "program \<Rightarrow> int \<rightharpoonup> string" where
  "program_map prog = map_of (map (\<lambda>l. (line_number l, line_text l)) prog)"

definition program_ok :: "program \<Rightarrow> bool" where
  "program_ok prog \<longleftrightarrow> sorted_wrt (<) (map line_number prog)"

lemma program_map_Nil [simp]: "program_map [] = Map.empty"
  by (simp add: program_map_def)

lemma program_map_Cons [simp]:
  "program_map (l # ls) = (program_map ls)(line_number l \<mapsto> line_text l)"
  by (simp add: program_map_def)

lemma program_ok_Cons [simp]:
  "program_ok (l # ls) \<longleftrightarrow> (\<forall>l'\<in>set ls. line_number l < line_number l') \<and> program_ok ls"
  by (simp add: program_ok_def)

lemma program_ok_Nil [simp]: "program_ok []"
  by (simp add: program_ok_def)

lemma program_map_None_below:
  "program_ok (l # ls) \<Longrightarrow> n \<le> line_number l \<Longrightarrow> program_map ls n = None"
  by (auto simp: program_map_def map_of_eq_None_iff)

lemma set_program_delete_line: "set (program_delete_line prog n) \<subseteq> set prog"
  by (induction prog) auto

lemma program_ok_delete: "program_ok prog \<Longrightarrow> program_ok (program_delete_line prog n)"
  by (induction prog) (auto dest: set_program_delete_line [THEN subsetD])

lemma program_map_delete:
  "program_ok prog \<Longrightarrow> program_map (program_delete_line prog n) = (program_map prog)(n := None)"
proof (induction prog)
  case (Cons l ls)
  show ?case
  proof (cases "line_number l = n")
    case True
    then have "program_map ls n = None"
      using program_map_None_below [OF Cons.prems] by simp
    then show ?thesis using True by (auto simp: fun_eq_iff)
  next
    case False
    then show ?thesis using Cons by (auto simp: fun_eq_iff)
  qed
qed simp

lemma set_insert_walk: "set (insert_walk new ls) = insert new (set ls)"
  by (induction ls) auto

lemma insert_walk_ok:
  "program_ok ls \<Longrightarrow> line_number new \<notin> line_number ` set ls \<Longrightarrow> program_ok (insert_walk new ls)"
  by (induction ls) (auto simp: set_insert_walk)

lemma insert_walk_map:
  "program_map (insert_walk new ls) = (program_map ls)(line_number new \<mapsto> line_text new)"
  if "line_number new \<notin> line_number ` set ls"
  using that by (induction ls) (auto simp: fun_eq_iff)

lemma insert_line_ok:
  "program_ok ls \<Longrightarrow> line_number new \<notin> line_number ` set ls \<Longrightarrow> program_ok (insert_line new ls)"
  by (cases ls) (auto simp: insert_line_def set_insert_walk insert_walk_ok)

lemma insert_line_map:
  "line_number new \<notin> line_number ` set ls \<Longrightarrow>
   program_map (insert_line new ls) = (program_map ls)(line_number new \<mapsto> line_text new)"
  by (cases ls) (auto simp: insert_line_def insert_walk_map fun_eq_iff)

lemma program_map_dom: "dom (program_map prog) = line_number ` set prog"
  by (simp add: program_map_def dom_map_of_conv_image_fst image_image)

lemma deleted_absent:
  "program_ok prog \<Longrightarrow> n \<notin> line_number ` set (program_delete_line prog n)"
  using program_map_delete [of prog n] program_map_dom [of "program_delete_line prog n"]
  by (metis domIff fun_upd_same)

lemma program_find_line_map:
  "program_ok prog \<Longrightarrow> map_option line_text (program_find_line prog n) = program_map prog n"
proof (induction prog)
  case (Cons l ls)
  then show ?case
    using program_map_None_below [OF Cons.prems, of n] by auto
qed simp

lemma program_find_line_number:
  "program_find_line prog n = Some l \<Longrightarrow> line_number l = n \<and> l \<in> set prog"
  by (induction prog) (auto split: if_splits)

lemma insert_walk_delete:
  "program_ok prog \<Longrightarrow> l \<in> set prog \<Longrightarrow> insert_walk l (program_delete_line prog (line_number l)) = prog"
proof (induction prog)
  case (Cons a ps)
  show ?case
  proof (cases "a = l")
    case True
    then show ?thesis using Cons.prems by (cases ps) auto
  next
    case False
    then have "l \<in> set ps" "line_number a < line_number l" using Cons.prems by auto
    then show ?thesis using Cons by auto
  qed
qed simp

lemma insert_line_delete:
  "program_ok prog \<Longrightarrow> l \<in> set prog \<Longrightarrow> insert_line l (program_delete_line prog (line_number l)) = prog"
proof (cases prog)
  case (Cons a ps)
  assume ok: "program_ok prog" and l: "l \<in> set prog"
  show ?thesis
  proof (cases "a = l")
    case True
    then show ?thesis using ok Cons by (cases ps) (auto simp: insert_line_def)
  next
    case False
    then have "l \<in> set ps" "line_number a < line_number l" using ok l Cons by auto
    then show ?thesis using ok Cons insert_walk_delete [of ps l] by (auto simp: insert_line_def)
  qed
qed simp

lemma program_add_line_present:
  assumes "program_ok prog" "l \<in> set prog" "line_text l \<noteq> []" "cstr (line_text l) = line_text l"
  shows "program_add_line prog (line_number l) (line_text l) = prog"
proof -
  have e: "\<lparr>line_number = line_number l, line_text = line_text l\<rparr> = l" by (cases l) simp
  show ?thesis using insert_line_delete [OF assms(1,2)] assms(3,4) by (simp add: program_add_line_def e)
qed


section \<open>Editing a program\<close>

text \<open>
  A sequence of edits as the REPL and LOAD make them: a numbered line stores its
  text (an empty text deletes the line), and \<open>Delete\<close> calls
  \<open>program_delete_line\<close>. The abstract effect of an edit on the map.
\<close>

datatype edit = Upsert int string | Delete int

fun apply_edit :: "program \<Rightarrow> edit \<Rightarrow> program" where
  "apply_edit prog (Upsert n t) = program_add_line prog n t"
| "apply_edit prog (Delete n) = program_delete_line prog n"

fun edit_map :: "(int \<rightharpoonup> string) \<Rightarrow> edit \<Rightarrow> (int \<rightharpoonup> string)" where
  "edit_map m (Upsert n t) = (if cstr t = [] then m(n := None) else m(n \<mapsto> cstr t))"
| "edit_map m (Delete n) = m(n := None)"

text \<open>
  C4: \<open>program_add_line\<close> keeps the line numbers strictly ascending and implements
  the map update: an empty text removes the number, any other text replaces or
  inserts it.
\<close>

theorem program_add_line_correct:
  assumes "program_ok prog"
  shows "program_ok (program_add_line prog n t) \<and>
         program_map (program_add_line prog n t) =
           (if cstr t = [] then (program_map prog)(n := None) else (program_map prog)(n \<mapsto> cstr t))"
proof -
  let ?p = "program_delete_line prog n"
  have ok: "program_ok ?p" using assms by (rule program_ok_delete)
  have abs: "program_map ?p = (program_map prog)(n := None)" using assms by (rule program_map_delete)
  have fresh: "n \<notin> line_number ` set ?p" using assms by (rule deleted_absent)
  show ?thesis
    using ok abs fresh insert_line_ok [of ?p "\<lparr>line_number = n, line_text = cstr t\<rparr>"]
      insert_line_map [of "\<lparr>line_number = n, line_text = cstr t\<rparr>" ?p]
    by (simp add: program_add_line_def Let_def)
qed

theorem program_add_line_correct_witness:
  "program_map (program_add_line [\<lparr>line_number = 10, line_text = ''PRINT 1''\<rparr>] 5 ''END'') 5 = Some ''END'' \<and>
   program_add_line [\<lparr>line_number = 10, line_text = ''PRINT 1''\<rparr>] 5 ''END'' =
     [\<lparr>line_number = 5, line_text = ''END''\<rparr>, \<lparr>line_number = 10, line_text = ''PRINT 1''\<rparr>]"
proof -
  have ok: "program_ok [\<lparr>line_number = 10, line_text = ''PRINT 1''\<rparr>]" by simp
  have "program_map (program_add_line [\<lparr>line_number = 10, line_text = ''PRINT 1''\<rparr>] 5 ''END'') 5 = Some ''END''"
    using program_add_line_correct [OF ok, of 5 "''END''"] by simp
  moreover have "program_add_line [\<lparr>line_number = 10, line_text = ''PRINT 1''\<rparr>] 5 ''END'' =
     [\<lparr>line_number = 5, line_text = ''END''\<rparr>, \<lparr>line_number = 10, line_text = ''PRINT 1''\<rparr>]"
    by (simp add: program_add_line_def insert_line_def)
  ultimately show ?thesis by simp
qed

lemma apply_edit_correct:
  "program_ok prog \<Longrightarrow>
   program_ok (apply_edit prog e) \<and> program_map (apply_edit prog e) = edit_map (program_map prog) e"
  using program_add_line_correct program_ok_delete program_map_delete by (cases e) auto

text \<open>
  C5: after any sequence of upserts and deletes, starting from any well-formed
  store, the line numbers are strictly ascending and \<open>program_find_line\<close>
  returns the text of the latest non-empty upsert of the number, or nothing when
  the latest edit of it deleted it (or it was never stored).
\<close>

theorem edits_refine_map:
  assumes "program_ok prog"
  shows "program_ok (foldl apply_edit prog es) \<and>
         map_option line_text (program_find_line (foldl apply_edit prog es) n) =
           foldl edit_map (program_map prog) es n"
proof -
  have "program_ok (foldl apply_edit prog es) \<and>
        program_map (foldl apply_edit prog es) = foldl edit_map (program_map prog) es"
    using assms
  proof (induction es arbitrary: prog)
    case (Cons e es)
    then show ?case using apply_edit_correct [OF Cons.prems, of e] by simp
  qed simp
  then show ?thesis by (simp add: program_find_line_map)
qed

theorem edits_refine_map_witness:
  "map_option line_text
     (program_find_line (foldl apply_edit [] [Upsert 10 ''PRINT 1'', Upsert 20 ''END'', Upsert 10 '''']) 10)
   = None"
proof -
  have ok: "program_ok []" by simp
  show ?thesis
    using edits_refine_map [OF ok, of "[Upsert 10 ''PRINT 1'', Upsert 20 ''END'', Upsert 10 '''']" 10]
    by simp
qed

text \<open>The lines \<open>LIST start,stop\<close> selects are the stored lines numbered
  from \<open>start\<close> to \<open>stop\<close> (to the end when \<open>stop = -1\<close>), in ascending order.\<close>

lemma listed_lines_correct:
  assumes "program_ok prog"
  shows "program_ok (listed_lines prog start stop) \<and>
         set (map line_number (listed_lines prog start stop)) =
           {n \<in> dom (program_map prog). start \<le> n \<and> (stop = -1 \<or> n \<le> stop)}"
proof -
  have "sorted_wrt (<) (map line_number (filter (list_selected start stop) prog))"
    using assms by (simp add: program_ok_def sorted_wrt_filter sorted_wrt_map)
  then show ?thesis
    by (auto simp: listed_lines_def program_ok_def program_map_dom list_selected_def)
qed

end
