(* ===== verification/Stacks.thy ===== *)
theory Stacks
  imports Utils
begin

text \<open>
  The two control stacks of \<open>src/interpreter.c\<close>: the GOSUB call stack
  (\<open>stack_push\<close>, \<open>stack_pop\<close>) of return line numbers and the FOR-loop stack
  (\<open>for_push\<close>, \<open>for_find\<close>, \<open>for_pop\<close>). Both are linked lists pushed and
  popped at the head, here HOL lists with the head first. The statement executor
  never calls them; \<open>interpreter_new\<close> and \<open>interpreter_free\<close> empty them.
  \<open>stack_pop\<close> on an empty stack reports "RETURN WITHOUT GOSUB" and returns -1,
  which the model returns as the error value \<open>Inl Return_without_gosub\<close>.
\<close>

datatype stack_error = Return_without_gosub

record for_loop =
  loop_var_name :: string
  end_value :: real
  step_value :: real
  loop_line :: int

definition stack_push :: "int list \<Rightarrow> int \<Rightarrow> int list" where
  "stack_push st return_line = return_line # st"

definition stack_pop :: "int list \<Rightarrow> stack_error + (int \<times> int list)" where
  "stack_pop st = (case st of [] \<Rightarrow> Inl Return_without_gosub | r # rest \<Rightarrow> Inr (r, rest))"

text \<open>The value the C function returns: the popped line, or -1 on the error path.\<close>

definition stack_pop_result :: "int list \<Rightarrow> int \<times> int list" where
  "stack_pop_result st = (case stack_pop st of Inl _ \<Rightarrow> (-1, st) | Inr r \<Rightarrow> r)"

definition for_push :: "for_loop list \<Rightarrow> string \<Rightarrow> real \<Rightarrow> real \<Rightarrow> int \<Rightarrow> for_loop list" where
  "for_push fs name e s lno =
     \<lparr>loop_var_name = cstr name, end_value = e, step_value = s, loop_line = lno\<rparr> # fs"

fun for_find :: "for_loop list \<Rightarrow> string \<Rightarrow> for_loop option" where
  "for_find [] name = None"
| "for_find (f # fs) name =
     (if str_compare_nocase (loop_var_name f) name = 0 then Some f else for_find fs name)"

definition for_pop :: "for_loop list \<Rightarrow> for_loop list" where
  "for_pop fs = (case fs of [] \<Rightarrow> [] | _ # rest \<Rightarrow> rest)"

text \<open>The loops \<open>while (stack) pop\<close> of \<open>interpreter_new\<close> and \<open>interpreter_free\<close>.\<close>

function pop_all :: "int list \<Rightarrow> int list" where
  "pop_all [] = []"
| "pop_all (r # rest) = pop_all (snd (stack_pop_result (r # rest)))"
  by pat_completeness auto
termination
  by (relation "measure length") (auto simp: stack_pop_result_def stack_pop_def)

function for_pop_all :: "for_loop list \<Rightarrow> for_loop list" where
  "for_pop_all [] = []"
| "for_pop_all (f # rest) = for_pop_all (for_pop (f # rest))"
  by pat_completeness auto
termination
  by (relation "measure length") (auto simp: for_pop_def)

section \<open>Properties\<close>

text \<open>
  the call stack is last-in first-out: popping after a push returns the pushed
  return line and the stack as it was; popping the empty stack is the "RETURN
  WITHOUT GOSUB" error and leaves it empty (the C function returns -1).
\<close>

theorem call_stack_lifo:
  "stack_pop (stack_push st r) = Inr (r, st) \<and>
   stack_pop [] = Inl Return_without_gosub \<and> stack_pop_result [] = (-1, [])"
  by (simp add: stack_pop_def stack_push_def stack_pop_result_def)

lemma for_find_push:
  "same_name name' name \<Longrightarrow> for_find (for_push fs name e s lno) name' =
     Some \<lparr>loop_var_name = cstr name, end_value = e, step_value = s, loop_line = lno\<rparr>"
  by (simp add: for_push_def str_compare_nocase_eq_0 same_name_def str_upper_def cstr_def
      takeWhile_idem)

lemma pop_all_empty [simp]: "pop_all st = []"
  by (induction st rule: pop_all.induct) (simp_all add: stack_pop_result_def stack_pop_def)

lemma for_pop_all_empty [simp]: "for_pop_all fs = []"
  by (induction fs rule: for_pop_all.induct) (simp_all add: for_pop_def)

end
