(* ===== verification/Lexer.thy ===== *)
theory Lexer
  imports Utils
begin

text \<open>
  The tokenizer of \<open>src/lexer.c\<close> and \<open>src/lexer.h\<close>. The \<open>Lexer\<close> struct is the
  record \<open>lexer\<close> (the unused \<open>current_token\<close> field is left out); a token is
  the record \<open>token\<close>; every scanning loop of the C code is a \<^theory_text>\<open>function\<close>
  whose termination measure is the number of unread bytes \<open>rem\<close>.
  \<open>lexer_next_token\<close> returns the token and the advanced lexer;
  \<open>lexer_peek_token\<close> saves and restores the position as the C code does.
  Owned token texts (\<open>char *text\<close>, \<open>NULL\<close> for the sentinels) are
  \<open>string option\<close>; \<open>token_free\<close> and \<open>lexer_free\<close> only release memory and
  have no counterpart.
\<close>

section \<open>Tokens\<close>

datatype (plugins only: code size) token_type =
  TOK_NUMBER | TOK_STRING | TOK_IDENTIFIER
| TOK_LIST | TOK_RUN | TOK_NEW | TOK_LOAD | TOK_SAVE | TOK_EXIT
| TOK_PRINT | TOK_INPUT | TOK_LET | TOK_GOTO | TOK_GOSUB | TOK_RETURN | TOK_IF | TOK_THEN
| TOK_ELSE | TOK_FOR | TOK_TO | TOK_STEP | TOK_NEXT | TOK_DO | TOK_LOOP | TOK_WHILE | TOK_WEND
| TOK_REPEAT | TOK_UNTIL | TOK_REM | TOK_END | TOK_STOP | TOK_DIM | TOK_TRAP | TOK_RESUME
| TOK_DATA | TOK_READ | TOK_RESTORE | TOK_POKE | TOK_PLOT | TOK_DRAW
| TOK_PLUS | TOK_MINUS | TOK_MULTIPLY | TOK_DIVIDE | TOK_POWER | TOK_EQUAL | TOK_NOT_EQUAL
| TOK_LESS | TOK_GREATER | TOK_LESS_EQUAL | TOK_GREATER_EQUAL | TOK_AND | TOK_OR | TOK_NOT
| TOK_ABS | TOK_INT | TOK_RND | TOK_SIN | TOK_COS | TOK_TAN | TOK_SQR | TOK_LEN | TOK_LEFT
| TOK_RIGHT | TOK_MID | TOK_STR | TOK_VAL | TOK_CHR | TOK_ASC | TOK_PEEK
| TOK_LPAREN | TOK_RPAREN | TOK_COMMA | TOK_SEMICOLON | TOK_COLON | TOK_QUESTION
| TOK_NEWLINE | TOK_EOF | TOK_ERROR

record token =
  tok_type :: token_type
  tok_text :: "string option"
  number_value :: real
  tok_line :: nat
  tok_column :: nat

record lexer =
  input :: string
  position :: nat
  line :: nat
  column :: nat

definition keyword_table :: "(string \<times> token_type) list" where
  "keyword_table =
    [(''LIST'', TOK_LIST), (''RUN'', TOK_RUN), (''NEW'', TOK_NEW),
     (''LOAD'', TOK_LOAD), (''SAVE'', TOK_SAVE), (''EXIT'', TOK_EXIT),
     (''PRINT'', TOK_PRINT), (''INPUT'', TOK_INPUT), (''LET'', TOK_LET),
     (''GOTO'', TOK_GOTO), (''GOSUB'', TOK_GOSUB), (''RETURN'', TOK_RETURN),
     (''IF'', TOK_IF), (''THEN'', TOK_THEN), (''ELSE'', TOK_ELSE),
     (''FOR'', TOK_FOR), (''TO'', TOK_TO), (''STEP'', TOK_STEP),
     (''NEXT'', TOK_NEXT), (''DO'', TOK_DO), (''LOOP'', TOK_LOOP),
     (''WHILE'', TOK_WHILE), (''WEND'', TOK_WEND), (''REPEAT'', TOK_REPEAT),
     (''UNTIL'', TOK_UNTIL), (''REM'', TOK_REM), (''END'', TOK_END),
     (''STOP'', TOK_STOP), (''DIM'', TOK_DIM), (''TRAP'', TOK_TRAP),
     (''RESUME'', TOK_RESUME), (''DATA'', TOK_DATA), (''READ'', TOK_READ),
     (''RESTORE'', TOK_RESTORE), (''POKE'', TOK_POKE), (''PLOT'', TOK_PLOT),
     (''DRAW'', TOK_DRAW), (''AND'', TOK_AND), (''OR'', TOK_OR),
     (''NOT'', TOK_NOT), (''ABS'', TOK_ABS), (''INT'', TOK_INT),
     (''RND'', TOK_RND), (''SIN'', TOK_SIN), (''COS'', TOK_COS),
     (''TAN'', TOK_TAN), (''SQR'', TOK_SQR), (''LEN'', TOK_LEN),
     (''LEFT$'', TOK_LEFT), (''RIGHT$'', TOK_RIGHT), (''MID$'', TOK_MID),
     (''STR$'', TOK_STR), (''VAL'', TOK_VAL), (''CHR$'', TOK_CHR),
     (''PEEK'', TOK_PEEK), (''ASC'', TOK_ASC)]"

definition lexer_init :: "string \<Rightarrow> lexer" where
  "lexer_init s = \<lparr>input = s, position = 0, line = 1, column = 1\<rparr>"

definition make_token :: "token_type \<Rightarrow> string option \<Rightarrow> real \<Rightarrow> nat \<Rightarrow> nat \<Rightarrow> token" where
  "make_token t txt v lno col =
     \<lparr>tok_type = t, tok_text = txt, number_value = v, tok_line = lno, tok_column = col\<rparr>"

section \<open>Characters\<close>

abbreviation DQUOTE :: char where "DQUOTE \<equiv> CHR 0x22"

definition peek_char :: "lexer \<Rightarrow> char" where
  "peek_char lx = c_char_at (input lx) (position lx)"

definition next_char :: "lexer \<Rightarrow> char \<times> lexer" where
  "next_char lx =
     (let c = peek_char lx in
      if c \<noteq> NUL then
        (c, if c = LF then lx\<lparr>position := Suc (position lx), line := Suc (line lx), column := 1\<rparr>
            else lx\<lparr>position := Suc (position lx), column := Suc (column lx)\<rparr>)
      else (c, lx))"

text \<open>The unread bytes: the measure of every scanning loop.\<close>

definition rem :: "lexer \<Rightarrow> nat" where
  "rem lx = length (input lx) - position lx"

lemma next_char_input [simp]: "input (snd (next_char lx)) = input lx"
  by (simp add: next_char_def Let_def)

lemma rem_next_char_less: "peek_char lx \<noteq> NUL \<Longrightarrow> rem (snd (next_char lx)) < rem lx"
  by (auto simp: next_char_def rem_def peek_char_def Let_def dest: c_char_at_not_NUL)

lemma rem_next_char_le [rem_progress]: "rem (snd (next_char lx)) \<le> rem lx"
  using rem_next_char_less [of lx] by (cases "peek_char lx = NUL") (auto simp: next_char_def)

section \<open>Scanning loops\<close>

function skip_whitespace :: "lexer \<Rightarrow> lexer" where
  "skip_whitespace lx =
     (if peek_char lx = CHR '' '' \<or> peek_char lx = TAB then skip_whitespace (snd (next_char lx))
      else lx)"
  by pat_completeness auto
termination
  by (relation "measure rem") (auto simp: rem_next_char_less)

function skip_digits :: "lexer \<Rightarrow> lexer" where
  "skip_digits lx = (if c_isdigit (peek_char lx) then skip_digits (snd (next_char lx)) else lx)"
  by pat_completeness auto
termination
  by (relation "measure rem") (auto simp: rem_next_char_less)

function scan_string_body :: "lexer \<Rightarrow> lexer" where
  "scan_string_body lx =
     (if peek_char lx \<noteq> DQUOTE \<and> peek_char lx \<noteq> NUL \<and> peek_char lx \<noteq> LF
      then scan_string_body (snd (next_char lx)) else lx)"
  by pat_completeness auto
termination
  by (relation "measure rem") (auto simp: rem_next_char_less)

definition ident_char :: "char \<Rightarrow> bool" where
  "ident_char c \<longleftrightarrow> c_isalnum c \<or> c = CHR ''_'' \<or> c = CHR ''$''"

function scan_ident :: "lexer \<Rightarrow> lexer" where
  "scan_ident lx = (if ident_char (peek_char lx) then scan_ident (snd (next_char lx)) else lx)"
  by pat_completeness auto
termination
  by (relation "measure rem") (auto simp: rem_next_char_less ident_char_def)

declare skip_whitespace.simps [simp del] skip_digits.simps [simp del]
  scan_string_body.simps [simp del] scan_ident.simps [simp del]

text \<open>
  Each loop unfolded one iteration at a time, guarded by its condition, so that the
  simplifier runs a loop on a concrete lexer without unfolding it blindly.
\<close>

lemma skip_whitespace_step:
  "peek_char lx = CHR '' '' \<or> peek_char lx = TAB \<Longrightarrow>
   skip_whitespace lx = skip_whitespace (snd (next_char lx))"
  by (subst skip_whitespace.simps) simp

lemma skip_whitespace_stop:
  "peek_char lx \<noteq> CHR '' '' \<Longrightarrow> peek_char lx \<noteq> TAB \<Longrightarrow> skip_whitespace lx = lx"
  by (subst skip_whitespace.simps) simp

lemma skip_digits_step:
  "c_isdigit (peek_char lx) \<Longrightarrow> skip_digits lx = skip_digits (snd (next_char lx))"
  by (subst skip_digits.simps) simp

lemma skip_digits_stop: "\<not> c_isdigit (peek_char lx) \<Longrightarrow> skip_digits lx = lx"
  by (subst skip_digits.simps) simp

lemma scan_string_body_step:
  "peek_char lx \<noteq> DQUOTE \<Longrightarrow> peek_char lx \<noteq> NUL \<Longrightarrow> peek_char lx \<noteq> LF \<Longrightarrow>
   scan_string_body lx = scan_string_body (snd (next_char lx))"
  by (subst scan_string_body.simps) simp

lemma scan_string_body_stop:
  "peek_char lx = DQUOTE \<or> peek_char lx = NUL \<or> peek_char lx = LF \<Longrightarrow> scan_string_body lx = lx"
  by (subst scan_string_body.simps) auto

lemma scan_ident_step:
  "ident_char (peek_char lx) \<Longrightarrow> scan_ident lx = scan_ident (snd (next_char lx))"
  by (subst scan_ident.simps) simp

lemma scan_ident_stop: "\<not> ident_char (peek_char lx) \<Longrightarrow> scan_ident lx = lx"
  by (subst scan_ident.simps) simp

lemmas scan_simps = skip_whitespace_step skip_whitespace_stop skip_digits_step skip_digits_stop
  scan_string_body_step scan_string_body_stop scan_ident_step scan_ident_stop

text \<open>The text between two positions, as \<open>strncpy\<close> copies it.\<close>

definition lexeme :: "nat \<Rightarrow> lexer \<Rightarrow> string" where
  "lexeme start lx' = take (position lx' - start) (drop start (input lx'))"

section \<open>Numbers: the value \<open>atof\<close> gives a lexeme of read_number\<close>

text \<open>
  \<open>read_number\<close> collects \<open>digits [. digits] [(E|e) [+|-] digits]\<close> and hands it
  to \<open>atof\<close>, which reads the longest prefix that is a decimal constant: an
  exponent marker with no digit after it is not part of the number. The value is
  the exact rational the decimal denotes.
\<close>

definition digits_value :: "string \<Rightarrow> nat" where
  "digits_value ds = foldl (\<lambda>n c. 10 * n + (of_char c - 48)) 0 ds"

definition exponent_value :: "string \<Rightarrow> int" where
  "exponent_value r =
     (case r of
        [] \<Rightarrow> 0
      | c # r' \<Rightarrow>
          if c = CHR ''e'' \<or> c = CHR ''E'' then
            (let (sg, ds) = (case r' of
                               [] \<Rightarrow> (1, [])
                             | d # r'' \<Rightarrow> if d = CHR ''-'' then (-1, r'')
                                          else if d = CHR ''+'' then (1, r'') else (1, r'));
                 e = takeWhile c_isdigit ds
             in if e = [] then 0 else sg * int (digits_value e))
          else 0)"

definition atof :: "string \<Rightarrow> real" where
  "atof s =
     (let ip = takeWhile c_isdigit s;
          r1 = dropWhile c_isdigit s;
          (fp, r2) = (case r1 of
                        [] \<Rightarrow> ([], [])
                      | c # r \<Rightarrow> if c = CHR ''.'' then (takeWhile c_isdigit r, dropWhile c_isdigit r)
                                 else ([], r1))
      in real (digits_value (ip @ fp)) * power_int 10 (exponent_value r2 - int (length fp)))"

section \<open>Token readers\<close>

definition read_number :: "lexer \<Rightarrow> token \<times> lexer" where
  "read_number lx =
     (let start = position lx; lno = line lx; col = column lx;
          lx1 = skip_digits lx;
          lx2 = (if peek_char lx1 = CHR ''.'' then skip_digits (snd (next_char lx1)) else lx1);
          lx3 = (if peek_char lx2 = CHR ''E'' \<or> peek_char lx2 = CHR ''e'' then
                   (let lx' = snd (next_char lx2);
                        lx'' = (if peek_char lx' = CHR ''+'' \<or> peek_char lx' = CHR ''-''
                                then snd (next_char lx') else lx')
                    in skip_digits lx'')
                 else lx2);
          num_str = lexeme start lx3
      in (make_token TOK_NUMBER (Some num_str) (atof num_str) lno col, lx3))"

definition read_string :: "lexer \<Rightarrow> token \<times> lexer" where
  "read_string lx =
     (let lno = line lx; col = column lx;
          lx1 = snd (next_char lx);
          start = position lx1;
          lx2 = scan_string_body lx1;
          str = lexeme start lx2;
          lx3 = (if peek_char lx2 = DQUOTE then snd (next_char lx2) else lx2)
      in (make_token TOK_STRING (Some str) 0 lno col, lx3))"

fun keyword_lookup :: "string \<Rightarrow> (string \<times> token_type) list \<Rightarrow> token_type" where
  "keyword_lookup u [] = TOK_IDENTIFIER"
| "keyword_lookup u ((k, t) # ks) = (if u = k then t else keyword_lookup u ks)"

definition read_identifier :: "lexer \<Rightarrow> token \<times> lexer" where
  "read_identifier lx =
     (let start = position lx; lno = line lx; col = column lx;
          lx1 = scan_ident lx;
          ident = lexeme start lx1;
          upper = str_upper ident
      in (make_token (keyword_lookup upper keyword_table) (Some ident) 0 lno col, lx1))"

text \<open>
  The \<open>switch\<close> on a single character, called after the character has been
  consumed; \<open><\<close> and \<open>>\<close> look at one more character.
\<close>

definition single_char_token :: "char \<Rightarrow> nat \<Rightarrow> nat \<Rightarrow> lexer \<Rightarrow> token \<times> lexer" where
  "single_char_token c lno col lx =
     (let tok = (\<lambda>t s. make_token t (Some s) 0 lno col) in
      if c = CHR ''+'' then (tok TOK_PLUS ''+'', lx)
      else if c = CHR ''-'' then (tok TOK_MINUS ''-'', lx)
      else if c = CHR ''*'' then (tok TOK_MULTIPLY ''*'', lx)
      else if c = CHR ''/'' then (tok TOK_DIVIDE ''/'', lx)
      else if c = CHR ''^'' then (tok TOK_POWER ''^'', lx)
      else if c = CHR ''('' then (tok TOK_LPAREN ''('', lx)
      else if c = CHR '')'' then (tok TOK_RPAREN '')'', lx)
      else if c = CHR '','' then (tok TOK_COMMA '','', lx)
      else if c = CHR '';'' then (tok TOK_SEMICOLON '';'', lx)
      else if c = CHR '':'' then (tok TOK_COLON '':'', lx)
      else if c = CHR ''?'' then (tok TOK_QUESTION ''?'', lx)
      else if c = CHR ''='' then (tok TOK_EQUAL ''='', lx)
      else if c = CHR ''<'' then
        (if peek_char lx = CHR ''='' then (tok TOK_LESS_EQUAL ''<='', snd (next_char lx))
         else if peek_char lx = CHR ''>'' then (tok TOK_NOT_EQUAL ''<>'', snd (next_char lx))
         else (tok TOK_LESS ''<'', lx))
      else if c = CHR ''>'' then
        (if peek_char lx = CHR ''='' then (tok TOK_GREATER_EQUAL ''>='', snd (next_char lx))
         else (tok TOK_GREATER ''>'', lx))
      else (make_token TOK_ERROR None 0 lno col, lx))"

definition lexer_next_token :: "lexer \<Rightarrow> token \<times> lexer" where
  "lexer_next_token lx0 =
     (let lx = skip_whitespace lx0; c = peek_char lx; lno = line lx; col = column lx in
      if c = NUL then (make_token TOK_EOF None 0 lno col, lx)
      else if c = LF \<or> c = CR then
        (let lx1 = snd (next_char lx);
             lx2 = (if c = CR \<and> peek_char lx1 = LF then snd (next_char lx1) else lx1)
         in (make_token TOK_NEWLINE None 0 lno col, lx2))
      else if c_isdigit c then read_number lx
      else if c = DQUOTE then read_string lx
      else if c_isalpha c then read_identifier lx
      else single_char_token c lno col (snd (next_char lx)))"

definition lexer_peek_token :: "lexer \<Rightarrow> token \<times> lexer" where
  "lexer_peek_token lx =
     (let pos = position lx; lno = line lx; col = column lx;
          (tok, lx') = lexer_next_token lx
      in (tok, lx'\<lparr>position := pos, line := lno, column := col\<rparr>))"

abbreviation next_type :: "lexer \<Rightarrow> token_type" where
  "next_type lx \<equiv> tok_type (fst (lexer_next_token lx))"

text \<open>\<open>token_type_name\<close>: the names of the token types a diagnostic prints.\<close>

definition token_type_name :: "token_type \<Rightarrow> string" where
  "token_type_name t =
     (case t of
        TOK_NUMBER \<Rightarrow> ''NUMBER'' | TOK_STRING \<Rightarrow> ''STRING'' | TOK_IDENTIFIER \<Rightarrow> ''IDENTIFIER''
      | TOK_PRINT \<Rightarrow> ''PRINT'' | TOK_IF \<Rightarrow> ''IF'' | TOK_THEN \<Rightarrow> ''THEN'' | TOK_ELSE \<Rightarrow> ''ELSE''
      | TOK_FOR \<Rightarrow> ''FOR'' | TOK_NEXT \<Rightarrow> ''NEXT'' | TOK_GOTO \<Rightarrow> ''GOTO'' | TOK_GOSUB \<Rightarrow> ''GOSUB''
      | TOK_RETURN \<Rightarrow> ''RETURN'' | TOK_EOF \<Rightarrow> ''EOF'' | TOK_NEWLINE \<Rightarrow> ''NEWLINE''
      | _ \<Rightarrow> ''UNKNOWN'')"

section \<open>Frame and progress\<close>

text \<open>
  No reader changes the input, and none grows the number of unread bytes; every
  token other than \<open>TOK_EOF\<close> consumes at least one byte. These facts give the
  termination measure of every loop that repeatedly calls the lexer. They are
  stated in bound form (\<open>rem x \<le> k \<Longrightarrow> rem (f x) \<le> k\<close>) so that the
  simplifier chains them through a sequence of readers.
\<close>

lemma rem_next_char_bound [rem_progress]: "rem x \<le> k \<Longrightarrow> rem (snd (next_char x)) \<le> k"
  using rem_next_char_le [of x] by linarith

lemma rem_next_char_strict [rem_progress]: "rem x < k \<Longrightarrow> rem (snd (next_char x)) < k"
  using rem_next_char_le [of x] by linarith

lemma skip_whitespace_frame:
  "input (skip_whitespace lx) = input lx \<and> rem (skip_whitespace lx) \<le> rem lx"
proof (induction lx rule: skip_whitespace.induct)
  case (1 lx)
  then show ?case
    using rem_next_char_le [of lx]
    by (cases "peek_char lx = CHR '' '' \<or> peek_char lx = TAB")
      (auto simp: skip_whitespace_step skip_whitespace_stop)
qed

lemma skip_digits_frame:
  "input (skip_digits lx) = input lx \<and> rem (skip_digits lx) \<le> rem lx"
proof (induction lx rule: skip_digits.induct)
  case (1 lx)
  then show ?case
    using rem_next_char_le [of lx]
    by (cases "c_isdigit (peek_char lx)") (auto simp: skip_digits_step skip_digits_stop)
qed

lemma scan_string_body_frame:
  "input (scan_string_body lx) = input lx \<and> rem (scan_string_body lx) \<le> rem lx"
proof (induction lx rule: scan_string_body.induct)
  case (1 lx)
  then show ?case
    using rem_next_char_le [of lx]
    by (cases "peek_char lx \<noteq> DQUOTE \<and> peek_char lx \<noteq> NUL \<and> peek_char lx \<noteq> LF")
      (auto simp: scan_string_body_step scan_string_body_stop)
qed

lemma scan_ident_frame:
  "input (scan_ident lx) = input lx \<and> rem (scan_ident lx) \<le> rem lx"
proof (induction lx rule: scan_ident.induct)
  case (1 lx)
  then show ?case
    using rem_next_char_le [of lx]
    by (cases "ident_char (peek_char lx)") (auto simp: scan_ident_step scan_ident_stop)
qed

lemma scanners_input [simp]:
  "input (skip_whitespace lx) = input lx" "input (skip_digits lx) = input lx"
  "input (scan_string_body lx) = input lx" "input (scan_ident lx) = input lx"
  using skip_whitespace_frame skip_digits_frame scan_string_body_frame scan_ident_frame
  by blast+

lemma scanners_bound [rem_progress]:
  "rem x \<le> k \<Longrightarrow> rem (skip_whitespace x) \<le> k" "rem x < k \<Longrightarrow> rem (skip_whitespace x) < k"
  "rem x \<le> k \<Longrightarrow> rem (skip_digits x) \<le> k" "rem x < k \<Longrightarrow> rem (skip_digits x) < k"
  "rem x \<le> k \<Longrightarrow> rem (scan_string_body x) \<le> k" "rem x < k \<Longrightarrow> rem (scan_string_body x) < k"
  "rem x \<le> k \<Longrightarrow> rem (scan_ident x) \<le> k" "rem x < k \<Longrightarrow> rem (scan_ident x) < k"
  using skip_whitespace_frame [of x] skip_digits_frame [of x] scan_string_body_frame [of x]
    scan_ident_frame [of x]
  by linarith+

lemma first_byte_consumed:
  "peek_char x \<noteq> NUL \<Longrightarrow> rem x \<le> k \<Longrightarrow> rem (snd (next_char x)) < k"
  using rem_next_char_less [of x] by linarith

lemma read_number_frame:
  assumes "c_isdigit (peek_char lx)"
  shows "input (snd (read_number lx)) = input lx \<and> rem (snd (read_number lx)) < rem lx"
proof -
  have "skip_digits lx = skip_digits (snd (next_char lx))"
    using assms by (rule skip_digits_step)
  then have r1: "rem (skip_digits lx) < rem lx"
    using assms by (simp add: rem_progress first_byte_consumed)
  then show ?thesis
    by (simp add: read_number_def Let_def rem_progress)
qed

lemma read_string_frame:
  assumes "peek_char lx = DQUOTE"
  shows "input (snd (read_string lx)) = input lx \<and> rem (snd (read_string lx)) < rem lx"
proof -
  have "rem (snd (next_char lx)) < rem lx"
    using assms by (intro rem_next_char_less) simp
  then show ?thesis
    by (simp add: read_string_def Let_def rem_progress)
qed

lemma read_identifier_frame:
  assumes "c_isalpha (peek_char lx)"
  shows "input (snd (read_identifier lx)) = input lx \<and> rem (snd (read_identifier lx)) < rem lx"
proof -
  have "scan_ident lx = scan_ident (snd (next_char lx))"
    using assms by (intro scan_ident_step) (simp add: ident_char_def c_isalnum_def)
  moreover have "rem (snd (next_char lx)) < rem lx"
    using assms by (intro rem_next_char_less) simp
  ultimately show ?thesis
    by (simp add: read_identifier_def Let_def rem_progress)
qed

lemma single_char_token_frame:
  "input (snd (single_char_token c lno col lx)) = input lx \<and>
   rem (snd (single_char_token c lno col lx)) \<le> rem lx"
  by (simp add: single_char_token_def Let_def rem_progress)

lemma keyword_lookup_cases:
  "keyword_lookup u ks = TOK_IDENTIFIER \<or> keyword_lookup u ks \<in> snd ` set ks"
  by (induction u ks rule: keyword_lookup.induct) auto

lemma keyword_lookup_not_EOF: "keyword_lookup u keyword_table \<noteq> TOK_EOF"
  using keyword_lookup_cases [of u keyword_table] by (auto simp: keyword_table_def)

lemma lexer_next_token_input [simp]: "input (snd (lexer_next_token lx)) = input lx"
  using read_number_frame [of "skip_whitespace lx"] read_string_frame [of "skip_whitespace lx"]
    read_identifier_frame [of "skip_whitespace lx"] single_char_token_frame
  by (auto simp: lexer_next_token_def Let_def)

theorem lexer_next_token_progress:
  "rem (snd (lexer_next_token lx)) \<le> rem lx \<and>
   (tok_type (fst (lexer_next_token lx)) \<noteq> TOK_EOF \<longrightarrow> rem (snd (lexer_next_token lx)) < rem lx)"
proof -
  let ?w = "skip_whitespace lx"
  let ?c = "peek_char ?w"
  have w: "rem ?w \<le> rem lx" by (simp add: rem_progress)
  show ?thesis
  proof (cases "?c = NUL")
    case True
    then show ?thesis using w by (simp add: lexer_next_token_def make_token_def Let_def)
  next
    case False
    have eat: "rem (snd (next_char ?w)) < rem lx"
      using False w by (rule first_byte_consumed)
    have num: "c_isdigit ?c \<Longrightarrow> rem (snd (read_number ?w)) < rem lx"
      using read_number_frame [of ?w] w by linarith
    have str: "?c = DQUOTE \<Longrightarrow> rem (snd (read_string ?w)) < rem lx"
      using read_string_frame [of ?w] w by linarith
    have idn: "c_isalpha ?c \<Longrightarrow> rem (snd (read_identifier ?w)) < rem lx"
      using read_identifier_frame [of ?w] w by linarith
    have sgl: "rem (snd (single_char_token ?c (line ?w) (column ?w) (snd (next_char ?w)))) < rem lx"
      using eat single_char_token_frame le_less_trans by blast
    have "rem (snd (lexer_next_token lx)) < rem lx"
      using False eat num str idn sgl
      by (auto simp: lexer_next_token_def Let_def rem_progress)
    then show ?thesis by simp
  qed
qed

lemma rem_lexer_next_token_bound [rem_progress]:
  "rem x \<le> k \<Longrightarrow> rem (snd (lexer_next_token x)) \<le> k"
  "rem x < k \<Longrightarrow> rem (snd (lexer_next_token x)) < k"
  using lexer_next_token_progress [of x] by linarith+

lemma rem_lexer_next_token_less:
  "next_type lx \<noteq> TOK_EOF \<Longrightarrow> rem (snd (lexer_next_token lx)) < rem lx"
  using lexer_next_token_progress by blast

section \<open>Scanning to the end of the input\<close>

lemma ident_char_NUL [simp]: "\<not> ident_char NUL"
  by (simp add: ident_char_def c_char_simps)

lemma next_char_position:
  "peek_char lx \<noteq> NUL \<Longrightarrow> position (snd (next_char lx)) = Suc (position lx)"
  by (simp add: next_char_def Let_def)

lemma peek_char_at: "position lx < length (input lx) \<Longrightarrow> peek_char lx = input lx ! position lx"
  by (simp add: peek_char_def c_char_at_def)

lemma peek_char_end: "\<not> position lx < length (input lx) \<Longrightarrow> peek_char lx = NUL"
  by (simp add: peek_char_def c_char_at_def)

text \<open>
  A loop whose condition holds for every remaining byte stops at the end of the
  input; shown for the identifier and string-body loops.
\<close>

lemma scan_ident_to_end:
  "(\<forall>i. position lx \<le> i \<and> i < length (input lx) \<longrightarrow> ident_char (input lx ! i)) \<Longrightarrow>
   position lx \<le> length (input lx) \<Longrightarrow> position (scan_ident lx) = length (input lx)"
proof (induction lx rule: scan_ident.induct)
  case (1 lx)
  show ?case
  proof (cases "position lx < length (input lx)")
    case True
    then have c: "ident_char (peek_char lx)" using "1.prems"(1) by (simp add: peek_char_at)
    then have nn: "peek_char lx \<noteq> NUL" by (auto simp: ident_char_def)
    have "position (scan_ident (snd (next_char lx))) = length (input lx)"
      using "1.IH" [OF c] "1.prems" True nn by (simp add: next_char_position)
    then show ?thesis using c by (simp add: scan_ident_step)
  next
    case False
    then have "\<not> ident_char (peek_char lx)" by (simp add: peek_char_end)
    then show ?thesis using False "1.prems"(2) by (simp add: scan_ident_stop)
  qed
qed

definition string_char :: "char \<Rightarrow> bool" where
  "string_char c \<longleftrightarrow> c \<noteq> DQUOTE \<and> c \<noteq> NUL \<and> c \<noteq> LF"

lemma scan_string_body_to_end:
  "(\<forall>i. position lx \<le> i \<and> i < length (input lx) \<longrightarrow> string_char (input lx ! i)) \<Longrightarrow>
   position lx \<le> length (input lx) \<Longrightarrow> position (scan_string_body lx) = length (input lx)"
proof (induction lx rule: scan_string_body.induct)
  case (1 lx)
  show ?case
  proof (cases "position lx < length (input lx)")
    case True
    then have c: "string_char (peek_char lx)" using "1.prems"(1) by (simp add: peek_char_at)
    then have "position (scan_string_body (snd (next_char lx))) = length (input lx)"
      using "1.IH" "1.prems" True by (simp add: next_char_position string_char_def)
    then show ?thesis using c by (simp add: scan_string_body_step string_char_def)
  next
    case False
    then show ?thesis using "1.prems"(2) by (simp add: peek_char_end scan_string_body_stop)
  qed
qed

section \<open>The keyword table\<close>

lemma keyword_lookup_distinct:
  "distinct (map fst ks) \<Longrightarrow> (k, t) \<in> set ks \<Longrightarrow> keyword_lookup k ks = t"
  by (induction k ks rule: keyword_lookup.induct) (auto simp: image_iff)

lemma keyword_table_distinct: "distinct (map fst keyword_table)"
  by code_simp

text \<open>Every keyword is a nonempty run of upper-case letters and \<open>$\<close>, starting with a letter.\<close>

definition keyword_shape :: "string \<Rightarrow> bool" where
  "keyword_shape k \<longleftrightarrow> k \<noteq> [] \<and> c_isupper (hd k) \<and> (\<forall>c\<in>set k. c_isupper c \<or> c = CHR ''$'')"

lemma keyword_table_shape: "\<forall>(k, t)\<in>set keyword_table. keyword_shape k"
proof -
  have "list_all (\<lambda>(k, t). k \<noteq> [] \<and> c_isupper (hd k) \<and> list_all (\<lambda>c. c_isupper c \<or> c = CHR ''$'') k)
          keyword_table"
    by code_simp
  then show ?thesis by (auto simp: keyword_shape_def list_all_iff)
qed

lemma c_toupper_cases: "c_toupper c = c \<or> (c_islower c \<and> c_isupper (c_toupper c))"
proof (cases "c_islower c")
  case True
  have "of_char (c_toupper c) = (of_char c - 32 :: nat)" using True by (rule of_char_c_toupper_lower)
  then have "c_isupper (c_toupper c)" using True unfolding c_isupper_def c_islower_def by linarith
  with True show ?thesis by simp
qed (simp add: c_toupper_def)

lemma c_toupper_upper_is_alpha: "c_isupper (c_toupper c) \<Longrightarrow> c_isalpha c"
  using c_toupper_cases [of c] by (auto simp: c_isalpha_def)

lemma c_toupper_dollar: "c_toupper c = CHR ''$'' \<Longrightarrow> c = CHR ''$''"
  using c_toupper_cases [of c] by (auto simp: c_isupper_def)

lemma c_isalpha_not_special:
  "c_isalpha c \<Longrightarrow> \<not> c_isdigit c \<and> c \<noteq> DQUOTE \<and> c \<noteq> LF \<and> c \<noteq> CR \<and> c \<noteq> CHR '' '' \<and> c \<noteq> TAB"
  by (auto simp: c_char_simps)

lemma cstr_no_NUL: "NUL \<notin> set s \<Longrightarrow> cstr s = s"
  by (induction s) auto

lemma lexeme_whole: "position lx = length (input lx) \<Longrightarrow> lexeme 0 lx = input lx"
  by (simp add: lexeme_def)

lemma lexer_restore_input:
  fixes lx lx' :: lexer
  shows "input lx' = input lx \<Longrightarrow> lx'\<lparr>position := position lx, line := line lx, column := column lx\<rparr> = lx"
  by (cases lx, cases lx') simp

lemma lexer_peek_token_fst [simp]: "fst (lexer_peek_token lx) = fst (lexer_next_token lx)"
  by (simp add: lexer_peek_token_def split: prod.split)

lemma lexer_peek_token_snd [simp]: "snd (lexer_peek_token lx) = lx"
proof -
  obtain tok lx' where nt: "lexer_next_token lx = (tok, lx')"
    by (cases "lexer_next_token lx")
  have "input lx' = input lx" using lexer_next_token_input [of lx] nt by simp
  then show ?thesis using nt lexer_restore_input [of lx' lx] by (simp add: lexer_peek_token_def)
qed

section \<open>Properties of the tokenizer\<close>

text \<open>
  \<open>lexer_peek_token\<close> returns the token \<open>lexer_next_token\<close> would return and
  leaves the lexer exactly as it was: the saved position, line and column are
  restored and the input is never changed.
\<close>

theorem lexer_peek_token_restores:
  "lexer_peek_token lx = (fst (lexer_next_token lx), lx)"
  using lexer_peek_token_fst [of lx] lexer_peek_token_snd [of lx] by (simp add: prod_eq_iff)

text \<open>
  a keyword of the table, written in any mix of letter cases, is scanned as
  that keyword's token: the identifier is upper-cased before the table lookup and
  the table has no duplicate spellings.
\<close>

theorem keyword_any_case:
  assumes kt: "(k, t) \<in> set keyword_table" and w: "map c_toupper w = k"
  shows "next_type (lexer_init w) = t"
proof -
  have shape: "keyword_shape k" using keyword_table_shape kt by auto
  then obtain c w' where wc: "w = c # w'" using w by (cases w) (auto simp: keyword_shape_def)
  have alpha: "c_isalpha c"
    using shape w wc by (auto simp: keyword_shape_def intro: c_toupper_upper_is_alpha)
  have chars: "ident_char d" if "d \<in> set w" for d
  proof -
    have "c_toupper d \<in> set k" using that w by auto
    then have "c_isupper (c_toupper d) \<or> c_toupper d = CHR ''$''"
      using shape by (auto simp: keyword_shape_def)
    then show ?thesis
      by (auto simp: ident_char_def c_isalnum_def dest: c_toupper_upper_is_alpha c_toupper_dollar)
  qed
  then have noNUL: "NUL \<notin> set w" using ident_char_NUL by blast
  let ?lx = "lexer_init w"
  have pk: "peek_char ?lx = c" by (simp add: lexer_init_def peek_char_def wc)
  have ws: "skip_whitespace ?lx = ?lx"
    using alpha c_isalpha_not_special [of c] pk by (simp add: skip_whitespace_stop)
  have "\<forall>i. position ?lx \<le> i \<and> i < length (input ?lx) \<longrightarrow> ident_char (input ?lx ! i)"
    using chars by (simp add: lexer_init_def)
  then have "position (scan_ident ?lx) = length (input ?lx)"
    by (rule scan_ident_to_end) (simp add: lexer_init_def)
  then have "position (scan_ident ?lx) = length w" by (simp add: lexer_init_def)
  then have lex: "lexeme 0 (scan_ident ?lx) = w"
    by (simp add: lexeme_def lexer_init_def)
  have up: "str_upper w = k" using w noNUL by (simp add: str_upper_def cstr_no_NUL)
  have "lexer_next_token ?lx = read_identifier ?lx"
    using ws pk alpha c_isalpha_not_special [of c] by (simp add: lexer_next_token_def Let_def)
  moreover have "tok_type (fst (read_identifier ?lx)) = t"
    using lex up keyword_lookup_distinct [OF keyword_table_distinct kt]
    by (simp add: read_identifier_def Let_def make_token_def lexer_init_def)
  ultimately show ?thesis by simp
qed

theorem keyword_any_case_witness:
  "(''PRINT'', TOK_PRINT) \<in> set keyword_table \<and> map c_toupper ''pRiNt'' = ''PRINT'' \<and>
   next_type (lexer_init ''pRiNt'') = TOK_PRINT"
proof -
  have kt: "(''PRINT'', TOK_PRINT) \<in> set keyword_table" by (simp add: keyword_table_def)
  have w: "map c_toupper ''pRiNt'' = ''PRINT''" by (simp add: c_char_simps char_of_eval)
  show ?thesis using keyword_any_case [OF kt w] kt w by simp
qed

text \<open>
  the number literal \<open>3.14E2\<close> is one \<open>TOK_NUMBER\<close> token with value 314,
  carrying its source text, and the lexer stops after the exponent digits.
\<close>

theorem number_literal_3_14E2:
  "lexer_next_token (lexer_init ''3.14E2'') =
     (make_token TOK_NUMBER (Some ''3.14E2'') 314 1 1,
      \<lparr>input = ''3.14E2'', position = 6, line = 1, column = 7\<rparr>)"
  by code_simp

text \<open>
  a string literal that is not closed before the end of the input is not an
  error: the token is \<open>TOK_STRING\<close> with every byte after the opening quote.
\<close>

theorem unterminated_string_literal:
  assumes s: "\<forall>c\<in>set s. string_char c"
  shows "fst (lexer_next_token (lexer_init (DQUOTE # s))) = make_token TOK_STRING (Some s) 0 1 1"
proof -
  let ?lx = "lexer_init (DQUOTE # s)"
  have pk: "peek_char ?lx = DQUOTE" by (simp add: lexer_init_def peek_char_def)
  have ws: "skip_whitespace ?lx = ?lx" using pk by (simp add: skip_whitespace_stop)
  let ?lx1 = "snd (next_char ?lx)"
  have p1: "position ?lx1 = 1" and i1: "input ?lx1 = DQUOTE # s"
    using pk by (simp_all add: next_char_position lexer_init_def)
  have pre: "\<forall>i. position ?lx1 \<le> i \<and> i < length (input ?lx1) \<longrightarrow> string_char (input ?lx1 ! i)"
  proof (intro allI impI)
    fix i assume "position ?lx1 \<le> i \<and> i < length (input ?lx1)"
    then obtain j where "i = Suc j" "j < length s" using p1 i1 by (cases i) auto
    then show "string_char (input ?lx1 ! i)" using s i1 by simp
  qed
  have "position (scan_string_body ?lx1) = Suc (length s)"
    using scan_string_body_to_end [OF pre] p1 i1 by simp
  then have lex: "lexeme 1 (scan_string_body ?lx1) = s"
    using i1 by (simp add: lexeme_def)
  have "lexer_next_token ?lx = read_string ?lx"
    using ws pk by (simp add: lexer_next_token_def Let_def c_char_simps)
  then show ?thesis
    using lex p1 by (simp add: read_string_def Let_def make_token_def lexer_init_def)
qed

theorem unterminated_string_literal_witness:
  "fst (lexer_next_token (lexer_init (DQUOTE # ''abc''))) = make_token TOK_STRING (Some ''abc'') 0 1 1"
proof -
  have h: "\<forall>c\<in>set ''abc''. string_char c" by (simp add: string_char_def)
  show ?thesis using unterminated_string_literal [OF h] by simp
qed

end
