(* ===== verification/Variables.thy ===== *)
theory Variables
  imports Utils
begin

text \<open>
  The variable store of \<open>src/interpreter.c\<close> (\<open>var_get\<close>, \<open>var_set_number\<close>,
  \<open>var_set_string\<close>, \<open>var_clear_all\<close>): the linked list \<open>interp->variables\<close>
  is a list of \<open>variable\<close> records, new variables are pushed at the head, and a
  name is found by the first node whose name compares equal ignoring case
  (\<open>str_compare_nocase\<close>). The tagged union of a variable's value is the datatype
  \<open>var_value\<close>; the array tags of \<open>VarType\<close> are never created by any code path
  and are left out. The abstract view is a map from upper-cased names to values,
  and the invariant is that no two nodes have the same name up to case.
\<close>

datatype var_value = VarNumber real | VarString string

record variable =
  var_name :: string
  var_value :: var_value

type_synonym var_store = "variable list"

section \<open>Operations\<close>

fun var_get :: "var_store \<Rightarrow> string \<Rightarrow> variable option" where
  "var_get [] name = None"
| "var_get (v # vs) name = (if str_compare_nocase (var_name v) name = 0 then Some v else var_get vs name)"

text \<open>The in-place assignment to the node \<open>var_get\<close> found.\<close>

fun var_update :: "var_store \<Rightarrow> string \<Rightarrow> var_value \<Rightarrow> var_store" where
  "var_update [] name x = []"
| "var_update (v # vs) name x =
     (if str_compare_nocase (var_name v) name = 0 then v\<lparr>var_value := x\<rparr> # vs
      else v # var_update vs name x)"

definition var_set_number :: "var_store \<Rightarrow> string \<Rightarrow> real \<Rightarrow> var_store" where
  "var_set_number vs name x =
     (case var_get vs name of
        None \<Rightarrow> \<lparr>var_name = cstr name, var_value = VarNumber x\<rparr> # vs
      | Some _ \<Rightarrow> var_update vs name (VarNumber x))"

definition var_set_string :: "var_store \<Rightarrow> string \<Rightarrow> string \<Rightarrow> var_store" where
  "var_set_string vs name s =
     (case var_get vs name of
        None \<Rightarrow> \<lparr>var_name = cstr name, var_value = VarString (cstr s)\<rparr> # vs
      | Some _ \<Rightarrow> var_update vs name (VarString (cstr s)))"

definition var_clear_all :: "var_store \<Rightarrow> var_store" where
  "var_clear_all vs = []"

section \<open>Abstraction and invariant\<close>

definition vars_ok :: "var_store \<Rightarrow> bool" where
  "vars_ok vs \<longleftrightarrow> distinct (map (\<lambda>v. str_upper (var_name v)) vs)"

definition vars_map :: "var_store \<Rightarrow> string \<rightharpoonup> var_value" where
  "vars_map vs = map_of (map (\<lambda>v. (str_upper (var_name v), var_value v)) vs)"

definition var_lookup :: "var_store \<Rightarrow> string \<Rightarrow> var_value option" where
  "var_lookup vs name = map_option var_value (var_get vs name)"

lemma vars_map_Cons [simp]:
  "vars_map (v # vs) = (vars_map vs)(str_upper (var_name v) \<mapsto> var_value v)"
  by (simp add: vars_map_def)

lemma vars_map_Nil [simp]: "vars_map [] = Map.empty"
  by (simp add: vars_map_def)

lemma vars_ok_Cons [simp]:
  "vars_ok (v # vs) \<longleftrightarrow> str_upper (var_name v) \<notin> (\<lambda>v. str_upper (var_name v)) ` set vs \<and> vars_ok vs"
  by (simp add: vars_ok_def)

lemma vars_ok_Nil [simp]: "vars_ok []"
  by (simp add: vars_ok_def)

lemma str_upper_cstr [simp]: "str_upper (cstr s) = str_upper s"
  by (induction s) auto

lemma var_get_same_name:
  "var_get vs name = Some v \<Longrightarrow> same_name (var_name v) name \<and> v \<in> set vs"
  by (induction vs) (auto simp: str_compare_nocase_eq_0 split: if_splits)

lemma var_get_None:
  "var_get vs name = None \<longleftrightarrow> str_upper name \<notin> (\<lambda>v. str_upper (var_name v)) ` set vs"
  by (induction vs) (auto simp: str_compare_nocase_eq_0 same_name_def)

lemma var_lookup_map: "vars_ok vs \<Longrightarrow> var_lookup vs name = vars_map vs (str_upper name)"
  by (induction vs) (auto simp: var_lookup_def str_compare_nocase_eq_0 same_name_def)

lemma var_update_names: "map (\<lambda>v. str_upper (var_name v)) (var_update vs name x) =
                         map (\<lambda>v. str_upper (var_name v)) vs"
  by (induction vs) auto

lemma var_update_map:
  "vars_ok vs \<Longrightarrow> var_get vs name \<noteq> None \<Longrightarrow>
   vars_map (var_update vs name x) = (vars_map vs)(str_upper name \<mapsto> x)"
proof (induction vs)
  case (Cons v vs)
  show ?case
  proof (cases "same_name (var_name v) name")
    case True
    then show ?thesis by (simp add: str_compare_nocase_eq_0 same_name_def fun_eq_iff)
  next
    case False
    then have "var_get vs name \<noteq> None" using Cons.prems by (simp add: str_compare_nocase_eq_0)
    then show ?thesis
      using Cons False by (auto simp: str_compare_nocase_eq_0 same_name_def fun_eq_iff)
  qed
qed simp

lemma var_update_ok: "vars_ok (var_update vs name x) = vars_ok vs"
  using var_update_names [of vs name x] by (simp add: vars_ok_def)

text \<open>Both setters are one operation on the value stored under a name.\<close>

definition var_set :: "var_store \<Rightarrow> string \<Rightarrow> var_value \<Rightarrow> var_store" where
  "var_set vs name x =
     (case var_get vs name of
        None \<Rightarrow> \<lparr>var_name = cstr name, var_value = x\<rparr> # vs
      | Some _ \<Rightarrow> var_update vs name x)"

lemma var_set_number_eq: "var_set_number vs name n = var_set vs name (VarNumber n)"
  by (simp add: var_set_number_def var_set_def)

lemma var_set_string_eq: "var_set_string vs name s = var_set vs name (VarString (cstr s))"
  by (simp add: var_set_string_def var_set_def)

lemma var_set_correct:
  "vars_ok (var_set vs name x) \<and> vars_map (var_set vs name x) = (vars_map vs)(str_upper name \<mapsto> x)"
  if "vars_ok vs"
proof (cases "var_get vs name")
  case None
  moreover have "str_upper name \<notin> (\<lambda>v. str_upper (var_name v)) ` set vs"
    using None var_get_None by blast
  ultimately show ?thesis using that by (simp add: var_set_def)
next
  case (Some v)
  then show ?thesis using that by (simp add: var_set_def var_update_ok var_update_map)
qed

section \<open>Properties of the variable store\<close>

text \<open>
  C16: both setters keep the names distinct up to case and implement the update of
  the abstract map at the upper-cased name: a new name gets a node, an existing one
  (spelled in any case) has its value replaced, every other name is unchanged.
\<close>

theorem var_setters_correct:
  assumes "vars_ok vs"
  shows "vars_ok (var_set_number vs name n) \<and>
         vars_map (var_set_number vs name n) = (vars_map vs)(str_upper name \<mapsto> VarNumber n) \<and>
         vars_ok (var_set_string vs name s) \<and>
         vars_map (var_set_string vs name s) = (vars_map vs)(str_upper name \<mapsto> VarString (cstr s))"
  using var_set_correct [OF assms] by (simp add: var_set_number_eq var_set_string_eq)

theorem var_setters_correct_witness:
  "vars_map (var_set_number [\<lparr>var_name = ''x'', var_value = VarNumber 1\<rparr>] ''X'' 2) ''X'' = Some (VarNumber 2)"
proof -
  have ok: "vars_ok [\<lparr>var_name = ''x'', var_value = VarNumber 1\<rparr>]" by simp
  have u: "c_toupper CHR ''x'' = CHR ''X''" "c_toupper CHR ''X'' = CHR ''X''"
    by (simp_all add: c_char_simps char_of_eval)
  show ?thesis using var_setters_correct [OF ok, of "''X''" 2] u by simp
qed

text \<open>
  rebinding a variable from text to number: after \<open>var_set_string\<close> and then
  \<open>var_set_number\<close> on the same name, a lookup under any spelling of the name
  gives the number, never the stale text.
\<close>

theorem variable_rebinding:
  assumes "vars_ok vs" and "same_name name' name"
  shows "var_lookup (var_set_number (var_set_string vs name s) name x) name' = Some (VarNumber x)"
proof -
  have ok1: "vars_ok (var_set_string vs name s)" using var_setters_correct [OF assms(1)] by blast
  have ok2: "vars_ok (var_set_number (var_set_string vs name s) name x)"
    using var_setters_correct [OF ok1] by blast
  have "vars_map (var_set_number (var_set_string vs name s) name x) (str_upper name) = Some (VarNumber x)"
    using var_setters_correct [OF ok1] by simp
  then show ?thesis using var_lookup_map [OF ok2] assms(2) by (simp add: same_name_def)
qed

theorem variable_rebinding_witness:
  "var_lookup (var_set_number (var_set_string [] ''a'' ''hi'') ''a'' 5) ''A'' = Some (VarNumber 5)"
proof -
  have ok: "vars_ok []" by simp
  have sn: "same_name ''A'' ''a''" by (simp add: same_name_def c_char_simps char_of_eval)
  show ?thesis using variable_rebinding [OF ok sn] by simp
qed

end
