(* ===== verification/Eval.thy ===== *)
theory Eval
  imports Lexer Variables "HOL-Library.Char_ord" "HOL-Library.List_Lexorder"
begin

text \<open>
  The expression evaluator of \<open>src/interpreter.c\<close>: the C struct \<open>Value\<close>, the
  mutually recursive \<open>evaluate_factor\<close> and \<open>evaluate_expression\<close> (whose
  \<open>while (true)\<close> loop over \<open>+\<close> and the relational operators is
  \<open>expression_loop\<close>), reading the variable store and the 64 KB RAM of the
  interpreter and consuming tokens of a lexer. The recursion has no syntactic
  bound, so the three functions take fuel; \<open>eval_fuel_enough\<close> shows that
  \<open>2 * rem lx + 2\<close> units always suffice (every call consumes a token or stops at
  the end of the input), and \<open>eval_expression\<close> is the total evaluator the
  statement executor uses. \<open>strcmp\<close> is modelled by \<open>c_strcmp\<close>, byte by byte
  on unsigned bytes. The allocations of \<open>str_duplicate\<close> and of the
  concatenation are assumed to succeed; the strings they leak are not modelled.
\<close>

record Value =
  is_string :: bool
  number :: real
  str :: string

definition num_value :: "real \<Rightarrow> Value" where
  "num_value n = \<lparr>is_string = False, number = n, str = []\<rparr>"

definition str_value :: "string \<Rightarrow> Value" where
  "str_value s = \<lparr>is_string = True, number = 0, str = s\<rparr>"

text \<open>\<open>Value val = {false, 0, NULL}\<close>.\<close>

definition default_value :: Value where
  "default_value = num_value 0"

fun c_strcmp :: "string \<Rightarrow> string \<Rightarrow> int" where
  "c_strcmp (c1 # s1) (c2 # s2) =
     (if c1 \<noteq> NUL \<and> c1 = c2 then c_strcmp s1 s2 else int (of_char c1) - int (of_char c2))"
| "c_strcmp [] s2 = - int (of_char (c_head s2))"
| "c_strcmp (c1 # s1) [] = int (of_char c1)"

text \<open>The value of an identifier: the variable's value, or 0 / "" by its last byte.\<close>

definition identifier_value :: "var_store \<Rightarrow> string option \<Rightarrow> Value" where
  "identifier_value vs txt =
     (let name = (case txt of Some t \<Rightarrow> t | None \<Rightarrow> []) in
      case var_get vs name of
        Some v \<Rightarrow> (case var_value v of VarNumber n \<Rightarrow> num_value n | VarString s \<Rightarrow> str_value s)
      | None \<Rightarrow> if txt \<noteq> None \<and> name \<noteq> [] \<and> last name = CHR ''$'' then str_value []
                else num_value 0)"

text \<open>\<open>char buf[2] = {(char)v.number, 0}\<close> duplicated as a C string.\<close>

definition chr_value :: "Value \<Rightarrow> Value" where
  "chr_value v = str_value (cstr [double_to_char (number v)])"

definition peek_value :: "(u16 \<Rightarrow> u8) \<Rightarrow> Value \<Rightarrow> Value" where
  "peek_value ram v = num_value (real (unat (ram (double_to_u16 (number v)))))"

text \<open>\<open>+\<close>: concatenation, addition, or the left operand unchanged on mixed types.\<close>

definition add_values :: "Value \<Rightarrow> Value \<Rightarrow> Value" where
  "add_values left right =
     (if is_string left \<and> is_string right then left\<lparr>str := str left @ str right\<rparr>
      else if \<not> is_string left \<and> \<not> is_string right then left\<lparr>number := number left + number right\<rparr>
      else left)"

definition is_relop :: "token_type \<Rightarrow> bool" where
  "is_relop t \<longleftrightarrow> t = TOK_EQUAL \<or> t = TOK_NOT_EQUAL \<or> t = TOK_LESS \<or> t = TOK_GREATER \<or>
                  t = TOK_LESS_EQUAL \<or> t = TOK_GREATER_EQUAL"

definition rel_test :: "token_type \<Rightarrow> 'a::linorder \<Rightarrow> 'a \<Rightarrow> bool" where
  "rel_test t a b =
     (if t = TOK_EQUAL then a = b else if t = TOK_NOT_EQUAL then a \<noteq> b
      else if t = TOK_LESS then a < b else if t = TOK_GREATER then a > b
      else if t = TOK_LESS_EQUAL then a \<le> b else if t = TOK_GREATER_EQUAL then a \<ge> b
      else False)"

text \<open>A relational operator: BASIC true is -1; mixed types compare as false.\<close>

definition compare_values :: "token_type \<Rightarrow> Value \<Rightarrow> Value \<Rightarrow> Value" where
  "compare_values t left right =
     (let res = (if is_string left \<and> is_string right then rel_test t (c_strcmp (str left) (str right)) 0
                 else if \<not> is_string left \<and> \<not> is_string right then rel_test t (number left) (number right)
                 else False)
      in left\<lparr>is_string := False, number := (if res then -1 else 0)\<rparr>)"

fun evaluate_factor :: "nat \<Rightarrow> var_store \<Rightarrow> (u16 \<Rightarrow> u8) \<Rightarrow> lexer \<Rightarrow> (Value \<times> lexer) option"
and evaluate_expression :: "nat \<Rightarrow> var_store \<Rightarrow> (u16 \<Rightarrow> u8) \<Rightarrow> lexer \<Rightarrow> (Value \<times> lexer) option"
and expression_loop :: "nat \<Rightarrow> var_store \<Rightarrow> (u16 \<Rightarrow> u8) \<Rightarrow> Value \<Rightarrow> lexer \<Rightarrow> (Value \<times> lexer) option"
where
  "evaluate_factor 0 vs ram lx = None"
| "evaluate_factor (Suc f) vs ram lx =
     (let (tok, lx1) = lexer_next_token lx in
      if tok_type tok = TOK_NUMBER then Some (num_value (number_value tok), lx1)
      else if tok_type tok = TOK_STRING then
        Some (str_value (case tok_text tok of Some s \<Rightarrow> s | None \<Rightarrow> []), lx1)
      else if tok_type tok = TOK_IDENTIFIER then Some (identifier_value vs (tok_text tok), lx1)
      else if tok_type tok = TOK_LPAREN then
        (case evaluate_expression f vs ram lx1 of
           None \<Rightarrow> None
         | Some (v, lx2) \<Rightarrow> Some (v, snd (lexer_next_token lx2)))
      else if tok_type tok = TOK_CHR \<or> tok_type tok = TOK_PEEK then
        (case evaluate_expression f vs ram (snd (lexer_next_token lx1)) of
           None \<Rightarrow> None
         | Some (v, lx2) \<Rightarrow>
             Some (if tok_type tok = TOK_CHR then chr_value v else peek_value ram v,
                   snd (lexer_next_token lx2)))
      else Some (default_value, lx1))"
| "evaluate_expression 0 vs ram lx = None"
| "evaluate_expression (Suc f) vs ram lx =
     (case evaluate_factor f vs ram lx of
        None \<Rightarrow> None
      | Some (left, lx1) \<Rightarrow> expression_loop f vs ram left lx1)"
| "expression_loop 0 vs ram left lx = None"
| "expression_loop (Suc f) vs ram left lx =
     (let peek = fst (lexer_peek_token lx) in
      if tok_type peek = TOK_PLUS \<or> is_relop (tok_type peek) then
        (case evaluate_factor f vs ram (snd (lexer_next_token lx)) of
           None \<Rightarrow> None
         | Some (right, lx2) \<Rightarrow>
             expression_loop f vs ram
               (if tok_type peek = TOK_PLUS then add_values left right
                else compare_values (tok_type peek) left right) lx2)
      else Some (left, lx))"

section \<open>Progress, fuel and the total evaluator\<close>

lemma evaluate_factor_Suc_cases:
  assumes "evaluate_factor (Suc f) vs ram lx = Some (v, lx')"
  obtains "lx' = snd (lexer_next_token lx)"
  | v0 lx2 where "evaluate_expression f vs ram (snd (lexer_next_token lx)) = Some (v0, lx2)"
      "lx' = snd (lexer_next_token lx2)"
  | v0 lx2 where "evaluate_expression f vs ram (snd (lexer_next_token (snd (lexer_next_token lx)))) =
        Some (v0, lx2)" "lx' = snd (lexer_next_token lx2)"
proof -
  obtain tok lx1 where nt: "lexer_next_token lx = (tok, lx1)" by (cases "lexer_next_token lx")
  show thesis using assms that by (auto simp: nt split: if_splits option.split_asm prod.split_asm)
qed

lemma expression_loop_Suc_cases:
  assumes "expression_loop (Suc f) vs ram left lx = Some (v, lx')"
  obtains "lx' = lx"
  | v0 lx2 left' where "evaluate_factor f vs ram (snd (lexer_next_token lx)) = Some (v0, lx2)"
      "expression_loop f vs ram left' lx2 = Some (v, lx')"
  using assms by (auto simp: Let_def split: if_splits option.split_asm prod.split_asm)

text \<open>\<open>lexer_after lx' lx\<close>: \<open>lx'\<close> reads the same input as \<open>lx\<close>, no further back.\<close>

definition lexer_after :: "lexer \<Rightarrow> lexer \<Rightarrow> bool" where
  "lexer_after lx' lx \<longleftrightarrow> input lx' = input lx \<and> rem lx' \<le> rem lx"

lemma lexer_after_refl [intro, simp]: "lexer_after lx lx"
  by (simp add: lexer_after_def)

lemma lexer_after_trans [trans]: "lexer_after a b \<Longrightarrow> lexer_after b c \<Longrightarrow> lexer_after a c"
  by (auto simp: lexer_after_def)

lemma lexer_after_next [intro, simp]: "lexer_after (snd (lexer_next_token lx)) lx"
  using lexer_next_token_progress [of lx] by (simp add: lexer_after_def)

lemma lexer_after_next_trans [intro]: "lexer_after a lx \<Longrightarrow> lexer_after (snd (lexer_next_token a)) lx"
  using lexer_after_next lexer_after_trans by blast

lemma eval_progress:
  "(evaluate_factor f vs ram lx = Some (v, lx') \<longrightarrow> lexer_after lx' lx) \<and>
   (evaluate_expression f vs ram lx = Some (v, lx') \<longrightarrow> lexer_after lx' lx) \<and>
   (expression_loop f vs ram left lx = Some (v, lx') \<longrightarrow> lexer_after lx' lx)"
proof (induction f arbitrary: lx lx' v left)
  case 0
  then show ?case by simp
next
  case (Suc f)
  note ih = Suc.IH [THEN conjunct1, rule_format] Suc.IH [THEN conjunct2, THEN conjunct1, rule_format]
    Suc.IH [THEN conjunct2, THEN conjunct2, rule_format]
  have f: "lexer_after lx' lx" if ev: "evaluate_factor (Suc f) vs ram lx = Some (v, lx')"
    using ev
  proof (cases rule: evaluate_factor_Suc_cases)
    case (2 v0 lx2)
    then show ?thesis using ih(2) [OF 2(1)] lexer_after_trans by blast
  next
    case (3 v0 lx2)
    then show ?thesis using ih(2) [OF 3(1)] lexer_after_trans by blast
  qed simp
  have e: "lexer_after lx' lx" if ev: "evaluate_expression (Suc f) vs ram lx = Some (v, lx')"
  proof (cases "evaluate_factor f vs ram lx")
    case (Some r)
    then show ?thesis using ev ih(1) [of lx "fst r" "snd r"] ih(3) [of _ _ v lx']
      by (cases r) (auto intro: lexer_after_trans)
  qed (use ev in simp)
  have l: "lexer_after lx' lx" if ev: "expression_loop (Suc f) vs ram left lx = Some (v, lx')"
    using ev
  proof (cases rule: expression_loop_Suc_cases)
    case (2 v0 lx2 left')
    then show ?thesis using ih(1) [OF 2(1)] ih(3) [OF 2(2)] lexer_after_trans by blast
  qed simp
  show ?case using f e l by blast
qed

lemma evaluate_factor_after:
  "evaluate_factor f vs ram lx = Some (v, lx') \<Longrightarrow> lexer_after lx' lx"
  using eval_progress by blast

lemma evaluate_expression_after:
  "evaluate_expression f vs ram lx = Some (v, lx') \<Longrightarrow> lexer_after lx' lx"
  using eval_progress by blast

lemma expression_loop_after:
  "expression_loop f vs ram left lx = Some (v, lx') \<Longrightarrow> lexer_after lx' lx"
  using eval_progress by blast

lemma lexer_after_rem: "lexer_after lx' lx \<Longrightarrow> rem lx' \<le> rem lx"
  by (simp add: lexer_after_def)

lemma relop_not_EOF: "tok_type t = TOK_PLUS \<or> is_relop (tok_type t) \<Longrightarrow> tok_type t \<noteq> TOK_EOF"
  by (auto simp: is_relop_def)

text \<open>
  Every call consumes a token or stops at the end of the input, so twice the unread
  length (plus two for the outer call) is enough fuel.
\<close>

lemma eval_fuel_enough:
  "(2 * rem lx < f \<longrightarrow> evaluate_factor f vs ram lx \<noteq> None) \<and>
   (2 * rem lx + 1 < f \<longrightarrow> evaluate_expression f vs ram lx \<noteq> None) \<and>
   (2 * rem lx < f \<longrightarrow> expression_loop f vs ram left lx \<noteq> None)"
proof (induction f arbitrary: lx left)
  case 0
  then show ?case by simp
next
  case (Suc f)
  note ih = Suc.IH [THEN conjunct1, rule_format] Suc.IH [THEN conjunct2, THEN conjunct1, rule_format]
    Suc.IH [THEN conjunct2, THEN conjunct2, rule_format]
  have f: "evaluate_factor (Suc f) vs ram lx \<noteq> None" if fuel: "2 * rem lx < Suc f"
  proof -
    obtain tok lx1 where nt: "lexer_next_token lx = (tok, lx1)" by (cases "lexer_next_token lx")
    have r1: "tok_type tok \<noteq> TOK_EOF \<Longrightarrow> rem lx1 < rem lx"
      using rem_lexer_next_token_less [of lx] nt by simp
    have e1: "tok_type tok \<noteq> TOK_EOF \<Longrightarrow> evaluate_expression f vs ram lx1 \<noteq> None"
      using ih(2) r1 fuel by simp
    have e2: "tok_type tok \<noteq> TOK_EOF \<Longrightarrow> evaluate_expression f vs ram (snd (lexer_next_token lx1)) \<noteq> None"
      using ih(2) r1 fuel lexer_next_token_progress [of lx1] by simp
    show ?thesis using e1 e2 by (auto simp: nt split: option.splits)
  qed
  have e: "evaluate_expression (Suc f) vs ram lx \<noteq> None" if fuel: "2 * rem lx + 1 < Suc f"
  proof -
    obtain left' lx1 where fa: "evaluate_factor f vs ram lx = Some (left', lx1)"
      using ih(1) [of lx] fuel by fastforce
    have "rem lx1 \<le> rem lx" using evaluate_factor_after [OF fa] by (rule lexer_after_rem)
    then have "expression_loop f vs ram left' lx1 \<noteq> None" using ih(3) fuel by simp
    then show ?thesis using fa by simp
  qed
  have l: "expression_loop (Suc f) vs ram left lx \<noteq> None" if fuel: "2 * rem lx < Suc f"
  proof (cases "tok_type (fst (lexer_next_token lx)) = TOK_PLUS \<or> is_relop (tok_type (fst (lexer_next_token lx)))")
    case True
    let ?lx1 = "snd (lexer_next_token lx)"
    have "rem ?lx1 < rem lx" using rem_lexer_next_token_less relop_not_EOF [OF True] by blast
    then obtain right lx2 where fa: "evaluate_factor f vs ram ?lx1 = Some (right, lx2)"
      using ih(1) [of ?lx1] fuel by fastforce
    have "rem lx2 < rem lx" using evaluate_factor_after [OF fa] \<open>rem ?lx1 < rem lx\<close>
      by (auto dest: lexer_after_rem)
    then have "expression_loop f vs ram l' lx2 \<noteq> None" for l' using ih(3) fuel by simp
    then show ?thesis using fa True by (simp add: Let_def)
  next
    case False
    then show ?thesis by (simp add: Let_def)
  qed
  show ?case using f e l by blast
qed

text \<open>Adding fuel never changes a result.\<close>

lemma eval_fuel_mono:
  "(evaluate_factor f vs ram lx = Some r \<longrightarrow> f \<le> f' \<longrightarrow> evaluate_factor f' vs ram lx = Some r) \<and>
   (evaluate_expression f vs ram lx = Some r \<longrightarrow> f \<le> f' \<longrightarrow> evaluate_expression f' vs ram lx = Some r) \<and>
   (expression_loop f vs ram left lx = Some r \<longrightarrow> f \<le> f' \<longrightarrow> expression_loop f' vs ram left lx = Some r)"
proof (induction f arbitrary: f' lx left r)
  case 0
  then show ?case by simp
next
  case (Suc f)
  note ih = Suc.IH [THEN conjunct1, rule_format] Suc.IH [THEN conjunct2, THEN conjunct1, rule_format]
    Suc.IH [THEN conjunct2, THEN conjunct2, rule_format]
  have step: "(evaluate_factor (Suc f) vs ram lx = Some r \<longrightarrow> evaluate_factor (Suc g) vs ram lx = Some r) \<and>
      (evaluate_expression (Suc f) vs ram lx = Some r \<longrightarrow> evaluate_expression (Suc g) vs ram lx = Some r) \<and>
      (expression_loop (Suc f) vs ram left lx = Some r \<longrightarrow> expression_loop (Suc g) vs ram left lx = Some r)"
    if fg: "f \<le> g" for g
  proof -
    have f: "evaluate_factor f vs ram lx' = Some r' \<Longrightarrow> evaluate_factor g vs ram lx' = Some r'" for lx' r'
      using ih(1) fg by blast
    have e: "evaluate_expression f vs ram lx' = Some r' \<Longrightarrow> evaluate_expression g vs ram lx' = Some r'" for lx' r'
      using ih(2) fg by blast
    have l: "expression_loop f vs ram l' lx' = Some r' \<Longrightarrow> expression_loop g vs ram l' lx' = Some r'" for l' lx' r'
      using ih(3) fg by blast
    show ?thesis using f e l by (cases r) (auto simp: Let_def split: prod.split option.split_asm)
  qed
  show ?case
  proof (cases f')
    case (Suc g)
    then show ?thesis using step [of g] by auto
  qed simp
qed

text \<open>The total evaluator: \<open>evaluate_expression\<close> with enough fuel.\<close>

definition eval_fuel :: "lexer \<Rightarrow> nat" where
  "eval_fuel lx = 2 * rem lx + 2"

definition eval_expression :: "var_store \<Rightarrow> (u16 \<Rightarrow> u8) \<Rightarrow> lexer \<Rightarrow> Value \<times> lexer" where
  "eval_expression vs ram lx =
     (case evaluate_expression (eval_fuel lx) vs ram lx of Some r \<Rightarrow> r | None \<Rightarrow> (default_value, lx))"

lemma evaluate_expression_eval_fuel:
  "\<exists>r. evaluate_expression (eval_fuel lx) vs ram lx = Some r"
  using eval_fuel_enough [of lx "eval_fuel lx"] by (auto simp: eval_fuel_def)

lemma evaluate_expression_mono:
  "evaluate_expression f vs ram lx = Some r \<Longrightarrow> f \<le> f' \<Longrightarrow> evaluate_expression f' vs ram lx = Some r"
  using eval_fuel_mono by blast

lemma eval_expression_eq:
  assumes ev: "evaluate_expression f vs ram lx = Some r"
  shows "eval_expression vs ram lx = r"
proof -
  obtain r' where r': "evaluate_expression (eval_fuel lx) vs ram lx = Some r'"
    using evaluate_expression_eval_fuel by blast
  have "r' = r"
  proof (cases "f \<le> eval_fuel lx")
    case True
    have "evaluate_expression (eval_fuel lx) vs ram lx = Some r"
      by (rule evaluate_expression_mono [OF ev True])
    then show ?thesis using r' by simp
  next
    case False
    have "evaluate_expression f vs ram lx = Some r'"
      by (rule evaluate_expression_mono [OF r']) (use False in simp)
    then show ?thesis using ev by simp
  qed
  then show ?thesis using r' by (simp add: eval_expression_def)
qed

lemma eval_expression_after [simp]: "lexer_after (snd (eval_expression vs ram lx)) lx"
proof -
  obtain r where r: "evaluate_expression (eval_fuel lx) vs ram lx = Some r"
    using evaluate_expression_eval_fuel by blast
  then have "eval_expression vs ram lx = r" by (rule eval_expression_eq)
  then show ?thesis using evaluate_expression_after [of _ vs ram lx "fst r" "snd r"] r by simp
qed

text \<open>Strings carry the number 0 (so a string condition is false).\<close>

definition value_ok :: "Value \<Rightarrow> bool" where
  "value_ok v \<longleftrightarrow> (is_string v \<longrightarrow> number v = 0)"

lemma value_ok_simps [simp]:
  "value_ok (num_value n)" "value_ok (str_value s)" "value_ok default_value"
  "value_ok (chr_value v)" "value_ok (peek_value ram v)"
  "value_ok (identifier_value vs txt)" "value_ok (compare_values t l r)"
  "value_ok l \<Longrightarrow> value_ok (add_values l r)"
  by (auto simp: value_ok_def num_value_def str_value_def default_value_def chr_value_def
      peek_value_def identifier_value_def compare_values_def add_values_def Let_def
      split: option.split var_value.split)

lemma eval_value_ok:
  "(evaluate_factor f vs ram lx = Some (v, lx') \<longrightarrow> value_ok v) \<and>
   (evaluate_expression f vs ram lx = Some (v, lx') \<longrightarrow> value_ok v) \<and>
   (expression_loop f vs ram left lx = Some (v, lx') \<longrightarrow> value_ok left \<longrightarrow> value_ok v)"
proof (induction f arbitrary: lx lx' v left)
  case 0
  then show ?case by simp
next
  case (Suc f)
  note ih = Suc.IH [THEN conjunct1, rule_format] Suc.IH [THEN conjunct2, THEN conjunct1, rule_format]
    Suc.IH [THEN conjunct2, THEN conjunct2, rule_format]
  have f: "value_ok v" if ev: "evaluate_factor (Suc f) vs ram lx = Some (v, lx')"
  proof -
    obtain tok lx1 where nt: "lexer_next_token lx = (tok, lx1)" by (cases "lexer_next_token lx")
    show ?thesis using ev by (auto simp: nt split: if_splits option.split_asm dest: ih(2))
  qed
  have e: "value_ok v" if ev: "evaluate_expression (Suc f) vs ram lx = Some (v, lx')"
    using ev by (auto split: option.split_asm dest: ih(1) ih(3))
  have l: "value_ok v" if ev: "expression_loop (Suc f) vs ram left lx = Some (v, lx')" and ok: "value_ok left"
  proof -
    let ?t = "tok_type (fst (lexer_next_token lx))"
    show ?thesis
    proof (cases "?t = TOK_PLUS \<or> is_relop ?t")
      case True
      then obtain right lx2 where fa: "evaluate_factor f vs ram (snd (lexer_next_token lx)) = Some (right, lx2)"
          and lp: "expression_loop f vs ram (if ?t = TOK_PLUS then add_values left right
                     else compare_values ?t left right) lx2 = Some (v, lx')"
        using ev by (auto simp: Let_def split: option.split_asm)
      have "value_ok (if ?t = TOK_PLUS then add_values left right else compare_values ?t left right)"
        using ok by simp
      then show ?thesis using ih(3) [OF lp] by blast
    next
      case False
      then show ?thesis using ev ok by (simp add: Let_def)
    qed
  qed
  show ?case using f e l by blast
qed

lemma of_char_pos: "c \<noteq> NUL \<Longrightarrow> (0::nat) < of_char c"
proof -
  assume "c \<noteq> NUL"
  then have "(of_char c :: nat) \<noteq> of_char NUL" by (simp only: of_char_eq_iff not_False_eq_True)
  then show ?thesis by simp
qed

lemma c_strcmp_Nil_Nil [simp]: "c_strcmp [] [] = 0"
  by (simp add: c_head_def)

section \<open>Properties of the evaluator\<close>

text \<open>
  C6: the evaluator always returns: with \<open>eval_fuel lx = 2 * rem lx + 2\<close> units of fuel
  \<open>evaluate_expression\<close> gives a result, and every other amount of fuel that gives a
  result gives the same one, so the total \<open>eval_expression\<close> never takes its
  fallback branch and does not depend on the fuel chosen.
\<close>

theorem evaluate_expression_terminates:
  "evaluate_expression (eval_fuel lx) vs ram lx = Some (eval_expression vs ram lx) \<and>
   (\<forall>f r. evaluate_expression f vs ram lx = Some r \<longrightarrow> r = eval_expression vs ram lx)"
  using evaluate_expression_eval_fuel [of lx vs ram] eval_expression_eq by (metis eval_expression_eq)

theorem evaluate_expression_terminates_witness:
  "evaluate_expression 3 [] (\<lambda>_. 0) (lexer_init ''7'') = Some (eval_expression [] (\<lambda>_. 0) (lexer_init ''7''))"
proof -
  have "evaluate_expression 3 [] (\<lambda>_. 0) (lexer_init ''7'') \<noteq> None" by code_simp
  then show ?thesis using evaluate_expression_terminates [of "lexer_init ''7''" "[]" "\<lambda>_. 0"] by auto
qed

text \<open>
  The coercion rules on the examples of the specification: \<open>"2"+"3"\<close> is the text
  \<open>"23"\<close>, \<open>2+3\<close> the number 5, \<open>2+"x"\<close> the left operand 2 unchanged, \<open>"A"<"B"\<close>
  the BASIC truth value -1, and the unset variables \<open>X\<close> and \<open>X$\<close> read as 0 and "".
\<close>

theorem evaluator_spec_examples:
  "is_string (fst (eval_expression [] ram (lexer_init ''\"2\"+\"3\"''))) \<and>
   str (fst (eval_expression [] ram (lexer_init ''\"2\"+\"3\"''))) = ''23'' \<and>
   \<not> is_string (fst (eval_expression [] ram (lexer_init ''2+3''))) \<and>
   number (fst (eval_expression [] ram (lexer_init ''2+3''))) = 5 \<and>
   \<not> is_string (fst (eval_expression [] ram (lexer_init ''2+\"x\"''))) \<and>
   number (fst (eval_expression [] ram (lexer_init ''2+\"x\"''))) = 2 \<and>
   \<not> is_string (fst (eval_expression [] ram (lexer_init ''\"A\"<\"B\"''))) \<and>
   number (fst (eval_expression [] ram (lexer_init ''\"A\"<\"B\"''))) = -1 \<and>
   \<not> is_string (fst (eval_expression [] ram (lexer_init ''X''))) \<and>
   number (fst (eval_expression [] ram (lexer_init ''X''))) = 0 \<and>
   is_string (fst (eval_expression [] ram (lexer_init ''X$''))) \<and>
   str (fst (eval_expression [] ram (lexer_init ''X$''))) = []"
  by code_simp

text \<open>\<open>strcmp\<close> on strings without NUL bytes is the lexicographic order
  of \<open>List_Lexorder\<close>, bytes compared as unsigned.\<close>

lemma c_strcmp_lexorder:
  "NUL \<notin> set a \<Longrightarrow> NUL \<notin> set b \<Longrightarrow> (c_strcmp a b < 0 \<longleftrightarrow> a < b) \<and> (c_strcmp a b = 0 \<longleftrightarrow> a = b)"
proof (induction a b rule: c_strcmp.induct)
  case (1 c1 s1 c2 s2)
  then show ?case by (auto simp: less_char_def)
next
  case (2 s2)
  then show ?case by (cases s2) (auto simp: c_head_def of_char_pos)
next
  case (3 c1 s1)
  then show ?case by (auto intro: of_char_pos)
qed

lemma rel_test_strcmp:
  assumes "NUL \<notin> set a" "NUL \<notin> set b"
  shows "rel_test t (c_strcmp a b) 0 = rel_test t a b"
proof -
  have "(c_strcmp a b < 0 \<longleftrightarrow> a < b) \<and> (c_strcmp a b = 0 \<longleftrightarrow> a = b)"
    using c_strcmp_lexorder [OF assms] .
  then have "c_strcmp a b > 0 \<longleftrightarrow> a > b" by (metis linorder_neqE_linordered_idom not_less_iff_gr_or_eq)
  with \<open>(c_strcmp a b < 0 \<longleftrightarrow> a < b) \<and> (c_strcmp a b = 0 \<longleftrightarrow> a = b)\<close> show ?thesis
    by (auto simp: rel_test_def)
qed

text \<open>
  C29: a relational operator on two texts without NUL bytes compares them in the
  ordinal (lexicographic, unsigned byte) order of the specification and yields the
  BASIC truth value: -1 when the relation holds, 0 otherwise, as a number.
\<close>

theorem string_relops_lexorder:
  assumes "is_string l" "is_string r" "NUL \<notin> set (str l)" "NUL \<notin> set (str r)"
  shows "compare_values t l r = l\<lparr>is_string := False, number := (if rel_test t (str l) (str r) then -1 else 0)\<rparr>"
  using assms rel_test_strcmp [OF assms(3,4), of t] by (simp add: compare_values_def)

lemma string_relops_lexorder_witness:
  "number (compare_values TOK_LESS (str_value ''A'') (str_value ''B'')) = -1"
  using string_relops_lexorder [of "str_value ''A''" "str_value ''B''" TOK_LESS]
  by (simp add: str_value_def rel_test_def less_char_def)

text \<open>
  C25: every value the evaluator returns satisfies the representation invariant of
  \<open>Value\<close>: a text value carries the number 0. Hence a text used as an IF condition
  or a GOTO target reads as 0.
\<close>

theorem eval_expression_value_ok:
  "value_ok (fst (eval_expression vs ram lx))"
proof -
  obtain r where r: "evaluate_expression (eval_fuel lx) vs ram lx = Some r"
    using evaluate_expression_eval_fuel by blast
  then have "eval_expression vs ram lx = r" by (rule eval_expression_eq)
  then show ?thesis using eval_value_ok [of "eval_fuel lx" vs ram lx "fst r" "snd r"] r by simp
qed

theorem eval_expression_value_ok_witness:
  "is_string (fst (eval_expression [] (\<lambda>_. 0) (lexer_init ''\"HI\"''))) \<and>
   number (fst (eval_expression [] (\<lambda>_. 0) (lexer_init ''\"HI\"''))) = 0"
proof -
  have s: "is_string (fst (eval_expression [] (\<lambda>_. 0) (lexer_init ''\"HI\"'')))" by code_simp
  show ?thesis using eval_expression_value_ok [of "[]" "\<lambda>_. 0" "lexer_init ''\"HI\"''"] s
    by (simp add: value_ok_def)
qed

end
