(* ===== verification/Format.thy ===== *)
theory Format
  imports Lexer "HOL-Library.Log_Nat"
begin

text \<open>
  The number formatting of the C library as the interpreter uses it:
  \<open>"%d"\<close> (\<open>int_to_string\<close>, used by \<open>interpreter_list\<close> and the run loop's
  error message) and \<open>"%g"\<close> (\<open>format_g\<close>, used by PRINT for numbers): six
  significant digits, rounded to nearest with ties to even, fixed notation for
  decimal exponents from -4 to 5 and exponent notation (\<open>d.ddddde+XX\<close>) otherwise,
  trailing zeros and a trailing decimal point removed. The model formats the exact
  real value; the C program formats the binary double nearest to it.
\<close>

fun nat_digits :: "nat \<Rightarrow> string" where
  "nat_digits n =
     (if n < 10 then [char_of (48 + n)] else nat_digits (n div 10) @ [char_of (48 + n mod 10)])"

declare nat_digits.simps [simp del]

definition int_to_string :: "int \<Rightarrow> string" where
  "int_to_string i = (if i < 0 then CHR ''-'' # nat_digits (nat (- i)) else nat_digits (nat i))"

text \<open>The decimal exponent of a positive real: \<open>10 ^ e \<le> x < 10 ^ (e + 1)\<close>.\<close>

definition dec_exp :: "real \<Rightarrow> int" where
  "dec_exp x =
     (if 1 \<le> x then int (floorlog 10 (nat \<lfloor>x\<rfloor>)) - 1
      else - int (floorlog 10 (nat \<lceil>1 / x\<rceil> - 1)))"

definition round_half_even :: "real \<Rightarrow> int" where
  "round_half_even x =
     (let f = \<lfloor>x\<rfloor>; d = x - of_int f in
      if d > 1 / 2 then f + 1 else if d < 1 / 2 then f else if even f then f else f + 1)"

text \<open>
  The exponent \<open>X\<close> of the style-e conversion and the six significant digits
  \<open>m\<close> (\<open>10 ^ 5 \<le> m < 10 ^ 6\<close>) of a positive real; rounding up to \<open>10 ^ 6\<close>
  carries into the exponent.
\<close>

definition g_digits :: "real \<Rightarrow> int \<times> nat" where
  "g_digits x =
     (let e0 = dec_exp x; m = round_half_even (x / power_int 10 (e0 - 5)) in
      if 10 ^ 6 \<le> m then (e0 + 1, 10 ^ 5) else (e0, nat m))"

definition strip_zeros :: "string \<Rightarrow> string" where
  "strip_zeros s = rev (dropWhile (\<lambda>c. c = CHR ''0'') (rev s))"

definition point_fraction :: "string \<Rightarrow> string" where
  "point_fraction fr = (if strip_zeros fr = [] then [] else CHR ''.'' # strip_zeros fr)"

definition exp_string :: "int \<Rightarrow> string" where
  "exp_string e =
     (let ds = nat_digits (nat \<bar>e\<bar>) in
      CHR ''e'' # (if e < 0 then CHR ''-'' else CHR ''+'') # (if length ds < 2 then CHR ''0'' # ds else ds))"

definition format_pos :: "real \<Rightarrow> string" where
  "format_pos x =
     (let (X, m) = g_digits x; ds = nat_digits m in
      if -4 \<le> X \<and> X < 6 then
        (if 0 \<le> X then take (nat X + 1) ds @ point_fraction (drop (nat X + 1) ds)
         else CHR ''0'' # point_fraction (replicate (nat (- X) - 1) (CHR ''0'') @ ds))
      else take 1 ds @ point_fraction (drop 1 ds) @ exp_string X)"

definition format_g :: "real \<Rightarrow> string" where
  "format_g x =
     (if x = 0 then ''0'' else if x < 0 then CHR ''-'' # format_pos (- x) else format_pos x)"

section \<open>Decimal digits\<close>

lemma nat_digits_small [simp]: "n < 10 \<Longrightarrow> nat_digits n = [char_of (48 + n)]"
  by (simp add: nat_digits.simps)

lemma nat_digits_large: "\<not> n < 10 \<Longrightarrow> nat_digits n = nat_digits (n div 10) @ [char_of (48 + n mod 10)]"
  by (simp add: nat_digits.simps)

lemma of_char_digit [simp]: "d < 10 \<Longrightarrow> (of_char (char_of (48 + d)) :: nat) = 48 + d"
  by (simp add: of_char_of)

lemma c_isdigit_digit: "d < (10::nat) \<Longrightarrow> c_isdigit (char_of (48 + d))"
  by (simp add: c_isdigit_def)

lemma nat_digits_isdigit: "c \<in> set (nat_digits n) \<Longrightarrow> c_isdigit c"
proof (induction n rule: nat_digits.induct)
  case (1 n)
  then show ?case
    by (cases "n < 10") (auto simp: nat_digits_large c_isdigit_digit)
qed

lemma digits_value_snoc: "digits_value (xs @ [c]) = 10 * digits_value xs + (of_char c - 48)"
  by (simp add: digits_value_def)

lemma digits_value_nat_digits: "digits_value (nat_digits n) = n"
proof (induction n rule: nat_digits.induct)
  case (1 n)
  then show ?case
    by (cases "n < 10") (auto simp: nat_digits_large digits_value_snoc digits_value_def)
qed

lemma length_nat_digits: "0 < n \<Longrightarrow> length (nat_digits n) = floorlog 10 n"
proof (induction n rule: nat_digits.induct)
  case (1 n)
  show ?case
  proof (cases "n < 10")
    case True
    then show ?thesis using 1 compute_floorlog [of 10 n] by (simp add: floorlog_def)
  next
    case False
    then have "0 < n div 10" by simp
    then show ?thesis using 1 False compute_floorlog [of 10 n] by (simp add: nat_digits_large)
  qed
qed

lemma char_of_48 [simp]: "char_of (48::nat) = CHR ''0''"
  by (simp add: char_of_eval)

lemma nat_digits_times_10: "0 < n \<Longrightarrow> nat_digits (n * 10) = nat_digits n @ ''0''"
  by (simp add: nat_digits_large)

lemma nat_digits_times_pow10:
  "0 < n \<Longrightarrow> nat_digits (n * 10 ^ k) = nat_digits n @ replicate k (CHR ''0'')"
proof (induction k)
  case (Suc k)
  have "nat_digits (n * 10 ^ Suc k) = nat_digits ((n * 10 ^ k) * 10)" by (simp add: ac_simps)
  also have "\<dots> = nat_digits (n * 10 ^ k) @ ''0''" using Suc.prems by (simp add: nat_digits_times_10)
  finally show ?case using Suc by (simp add: replicate_append_same [symmetric])
qed simp

lemma strip_zeros_replicate [simp]: "strip_zeros (replicate k (CHR ''0'')) = []"
  by (simp add: strip_zeros_def)

lemma point_fraction_zeros [simp]: "point_fraction (replicate k (CHR ''0'')) = []"
  by (simp add: point_fraction_def)

section \<open>The integers PRINT shows as with \<open>"%d"\<close>\<close>

lemma floorlog_pos: "0 < n \<Longrightarrow> 0 < floorlog 10 n"
  using floorlog_eq_zero_iff [of 10 n] by (simp add: gr0I)

lemma floorlog_le_6: "n < 10 ^ 6 \<Longrightarrow> floorlog 10 n \<le> 6"
  by (rule floorlog_leI) auto

lemma dec_exp_nat: "0 < n \<Longrightarrow> dec_exp (real n) = int (floorlog 10 n) - 1"
  by (simp add: dec_exp_def)

lemma round_half_even_of_nat [simp]: "round_half_even (real k) = int k"
  by (simp add: round_half_even_def)

lemma g_digits_nat:
  assumes "0 < n" "n < 10 ^ 6"
  shows "g_digits (real n) = (int (floorlog 10 n) - 1, n * 10 ^ (6 - floorlog 10 n))"
proof -
  let ?L = "floorlog 10 n"
  have L: "0 < ?L" "?L \<le> 6" using assms floorlog_pos floorlog_le_6 by auto
  have "n < 10 ^ ?L" using floorlog_bounds [of n 10] assms by simp
  then have "n * 10 ^ (6 - ?L) < 10 ^ ?L * 10 ^ (6 - ?L)" by simp
  also have "\<dots> = 10 ^ 6" using L by (simp flip: power_add)
  finally have small: "n * 10 ^ (6 - ?L) < 10 ^ 6" .
  have p: "power_int (10::real) (int ?L - 6) = inverse (10 ^ (6 - ?L))"
    using L by (simp add: power_int_def nat_diff_distrib power_one_over inverse_eq_divide)
  have "real n / power_int 10 (int ?L - 6) = real (n * 10 ^ (6 - ?L))"
    by (simp add: p divide_inverse)
  then show ?thesis using small assms
    by (simp add: g_digits_def dec_exp_nat Let_def del: of_nat_mult)
qed

lemma format_pos_nat: "0 < n \<Longrightarrow> n < 10 ^ 6 \<Longrightarrow> format_pos (real n) = nat_digits n"
proof -
  assume n: "0 < n" "n < 10 ^ 6"
  let ?L = "floorlog 10 n"
  have L: "0 < ?L" "?L \<le> 6" using n floorlog_pos floorlog_le_6 by auto
  have ds: "nat_digits (n * 10 ^ (6 - ?L)) = nat_digits n @ replicate (6 - ?L) (CHR ''0'')"
    using n(1) by (rule nat_digits_times_pow10)
  have len: "length (nat_digits n) = ?L" using n(1) by (rule length_nat_digits)
  have X: "nat (int ?L - 1) + 1 = ?L" using L by simp
  show ?thesis using L len
    by (simp add: format_pos_def g_digits_nat [OF n] ds X)
qed

section \<open>Properties of the formatting\<close>

text \<open>
  \<open>"%g"\<close> prints every integer of at most six digits exactly as \<open>"%d"\<close>
  does: no decimal point, no exponent, no trailing zeros, a minus sign for negatives.
\<close>

theorem format_g_integer:
  assumes "\<bar>i\<bar> < 10 ^ 6"
  shows "format_g (of_int i) = int_to_string i"
proof (cases "i = 0")
  case True
  then show ?thesis by (simp add: format_g_def int_to_string_def)
next
  case False
  have n: "0 < nat \<bar>i\<bar>" "nat \<bar>i\<bar> < 10 ^ 6" using assms False by auto
  have "format_pos (real (nat \<bar>i\<bar>)) = nat_digits (nat \<bar>i\<bar>)" using n by (rule format_pos_nat)
  then show ?thesis using False
    by (cases "i < 0") (auto simp: format_g_def int_to_string_def)
qed

theorem format_g_integer_witness: "format_g (-120) = ''-120''"
proof -
  have "format_g (of_int (-120)) = int_to_string (-120)" by (rule format_g_integer) simp
  moreover have "int_to_string (-120) = ''-120''" by code_simp
  ultimately show ?thesis by simp
qed

text \<open>
  the \<open>"%g"\<close> conversion on values of each style: fixed notation with
  trailing zeros removed, exponent notation from \<open>10 ^ 6\<close> and below \<open>10 ^ -4\<close>,
  six significant digits rounded to nearest with ties to even.
\<close>

theorem format_g_examples:
  "format_g 3.14 = ''3.14'' \<and> format_g 100 = ''100'' \<and> format_g 1000000 = ''1e+06'' \<and>
   format_g 123456789 = ''1.23457e+08'' \<and> format_g 0.0001 = ''0.0001'' \<and>
   format_g 0.00001 = ''1e-05'' \<and> format_g 1234565 = ''1.23456e+06'' \<and>
   format_g 999999.5 = ''1e+06'' \<and> format_g (-2.5) = ''-2.5''"
  by code_simp

end
