(* ===== verification/Interp.thy ===== *)
theory Interp
  imports ProgramStore Stacks Eval Format
begin

text \<open>
  The interpreter state of \<open>src/interpreter.h\<close> (\<open>struct Interpreter\<close>) and the
  operations of \<open>src/interpreter.c\<close> that act on it as a whole:
  \<open>interpreter_init\<close>, \<open>interpreter_new\<close>, \<open>interpreter_free\<close>,
  \<open>interpreter_list\<close> and the output primitive \<open>basic_print\<close>.
  The pointer \<open>current_line\<close> into the program list is the line number of the node
  it points to (line numbers are unique in a well-formed program, and no statement
  edits the program, so the node and its number determine each other).
  The screen editor is not modelled: \<open>editor\<close> holds only the two fields the
  interpreter reads (\<open>cols\<close>, \<open>rows\<close>), and every call into the editor or to
  \<open>stdout\<close>/\<open>stderr\<close> is an event appended to \<open>events\<close>. The field
  \<open>error_message\<close> is never set by the code and is not modelled.
\<close>

datatype display_event =
    Print string
  | Stderr string
  | Set_background u8
  | Poke_char u16 u8
  | Plot_char int int char

record editor_dims =
  cols :: int
  rows :: int

record interp =
  program :: program
  current_line :: "int option"
  variables :: var_store
  call_stack :: "int list"
  for_stack :: "for_loop list"
  editor :: "editor_dims option"
  running :: bool
  break_requested :: bool
  exit_requested :: bool
  error_occurred :: bool
  graphics_x :: real
  graphics_y :: real
  ram :: "u16 \<Rightarrow> u8"
  events :: "display_event list"

text \<open>
  \<open>basic_print\<close> formats into a buffer and hands it to \<open>editor_print\<close> when an
  editor is attached, to \<open>printf\<close> otherwise; both are a \<open>Print\<close> event.
\<close>

definition basic_print :: "interp \<Rightarrow> string \<Rightarrow> interp" where
  "basic_print it s = it\<lparr>events := events it @ [Print s]\<rparr>"

text \<open>\<open>error(msg)\<close> of \<open>src/utils.c\<close>: \<open>"?" msg " ERROR\n"\<close> on \<open>stderr\<close>.\<close>

definition report_error :: "interp \<Rightarrow> string \<Rightarrow> interp" where
  "report_error it msg = it\<lparr>events := events it @ [Stderr (CHR ''?'' # msg @ '' ERROR'' @ [LF])]\<rparr>"

definition interpreter_init :: interp where
  "interpreter_init =
     \<lparr>program = [], current_line = None, variables = [], call_stack = [], for_stack = [],
      editor = None, running = False, break_requested = False, exit_requested = False,
      error_occurred = False, graphics_x = 0, graphics_y = 0, ram = (\<lambda>_. 0), events = []\<rparr>"

definition interpreter_new :: "interp \<Rightarrow> interp" where
  "interpreter_new it =
     it\<lparr>program := program_clear (program it), variables := var_clear_all (variables it),
        call_stack := pop_all (call_stack it), for_stack := for_pop_all (for_stack it)\<rparr>"

definition interpreter_free :: "interp \<Rightarrow> interp" where
  "interpreter_free it = interpreter_new it"

text \<open>\<open>basic_print(interp, "%d %s\n", ...)\<close> for each selected line, in list order.\<close>

definition list_line_text :: "program_line \<Rightarrow> string" where
  "list_line_text l = int_to_string (line_number l) @ CHR '' '' # line_text l @ [LF]"

definition interpreter_list :: "interp \<Rightarrow> int \<Rightarrow> int \<Rightarrow> interp" where
  "interpreter_list it start stop =
     foldl (\<lambda>it l. if list_selected start stop l then basic_print it (list_line_text l) else it)
       it (program it)"

text \<open>The text the events print, in order (what the screen or \<open>stdout\<close> shows).\<close>

fun printed :: "display_event list \<Rightarrow> string" where
  "printed [] = []"
| "printed (Print s # es) = s @ printed es"
| "printed (_ # es) = printed es"

lemma printed_append [simp]: "printed (es @ fs) = printed es @ printed fs"
  by (induction es rule: printed.induct) auto

lemma basic_print_fields [simp]:
  "program (basic_print it s) = program it" "variables (basic_print it s) = variables it"
  "current_line (basic_print it s) = current_line it" "running (basic_print it s) = running it"
  "error_occurred (basic_print it s) = error_occurred it" "ram (basic_print it s) = ram it"
  "editor (basic_print it s) = editor it" "exit_requested (basic_print it s) = exit_requested it"
  "break_requested (basic_print it s) = break_requested it"
  "events (basic_print it s) = events it @ [Print s]"
  by (simp_all add: basic_print_def)

lemma printed_basic_print [simp]: "printed (events (basic_print it s)) = printed (events it) @ s"
  by simp

lemma report_error_fields [simp]:
  "program (report_error it m) = program it" "variables (report_error it m) = variables it"
  "current_line (report_error it m) = current_line it" "running (report_error it m) = running it"
  "error_occurred (report_error it m) = error_occurred it" "ram (report_error it m) = ram it"
  "editor (report_error it m) = editor it" "exit_requested (report_error it m) = exit_requested it"
  "printed (events (report_error it m)) = printed (events it)"
  by (simp_all add: report_error_def)

lemma interpreter_list_fields:
  "program (interpreter_list it a b) = program it \<and> variables (interpreter_list it a b) = variables it"
proof -
  have "program (foldl (\<lambda>it l. if list_selected a b l then basic_print it (list_line_text l) else it) it ls) = program it \<and>
        variables (foldl (\<lambda>it l. if list_selected a b l then basic_print it (list_line_text l) else it) it ls) = variables it"
    for ls by (induction ls arbitrary: it) auto
  then show ?thesis by (simp add: interpreter_list_def)
qed

lemma printed_interpreter_list:
  "printed (events (interpreter_list it a b)) =
     printed (events it) @ concat (map list_line_text (listed_lines (program it) a b))"
proof -
  have "printed (events (foldl (\<lambda>it l. if list_selected a b l then basic_print it (list_line_text l) else it) it ls)) =
        printed (events it) @ concat (map list_line_text (filter (list_selected a b) ls))" for ls
    by (induction ls arbitrary: it) auto
  then show ?thesis by (simp add: interpreter_list_def listed_lines_def)
qed

lemma interpreter_list_foldl:
  "events (foldl (\<lambda>it l. if list_selected a b l then basic_print it (list_line_text l) else it) it ls) =
   events it @ map (\<lambda>l. Print (list_line_text l)) (filter (list_selected a b) ls)"
  by (induction ls arbitrary: it) (simp_all add: basic_print_def)

text \<open>
  C30: LIST prints exactly the stored lines numbered from \<open>start\<close> to \<open>stop\<close>
  (to the end when \<open>stop = -1\<close>), each as \<open>"%d %s\n"\<close>, in strictly ascending
  order of their numbers, and nothing else.
\<close>

theorem list_prints_selected_lines:
  assumes "program_ok (program it)"
  shows "events (interpreter_list it start stop) =
           events it @ map (\<lambda>l. Print (list_line_text l)) (listed_lines (program it) start stop) \<and>
         program_ok (listed_lines (program it) start stop) \<and>
         set (map line_number (listed_lines (program it) start stop)) =
           {n \<in> dom (program_map (program it)). start \<le> n \<and> (stop = -1 \<or> n \<le> stop)}"
  using listed_lines_correct [OF assms, of start stop]
  by (simp add: interpreter_list_def interpreter_list_foldl listed_lines_def)

lemma list_prints_selected_lines_witness:
  "events (interpreter_list (interpreter_init\<lparr>program := [\<lparr>line_number = 10, line_text = ''A''\<rparr>,
      \<lparr>line_number = 20, line_text = ''B''\<rparr>, \<lparr>line_number = 30, line_text = ''C''\<rparr>]\<rparr>) 15 (-1)) =
   [Print (list_line_text \<lparr>line_number = 20, line_text = ''B''\<rparr>),
    Print (list_line_text \<lparr>line_number = 30, line_text = ''C''\<rparr>)]"
  using list_prints_selected_lines [of "interpreter_init\<lparr>program := [\<lparr>line_number = 10, line_text = ''A''\<rparr>,
      \<lparr>line_number = 20, line_text = ''B''\<rparr>, \<lparr>line_number = (30::int), line_text = ''C''\<rparr>]\<rparr>" 15 "-1"]
  by (simp add: interpreter_init_def listed_lines_def list_selected_def)

end
