(* ===== verification/Exec.thy ===== *)
theory Exec
  imports Interp
begin

text \<open>
  The statement executor \<open>interpreter_execute_line\<close> of \<open>src/interpreter.c\<close>.
  Its \<open>while (true)\<close> loop over the tokens of a line is \<open>exec_statements\<close>; the
  branch of its if-chain for each statement token is \<open>exec_statement\<close>, which
  returns the new state, the lexer after the statement and whether the loop
  \<open>break\<close>s (END, STOP, EXIT, REM, and IF ... THEN to an existing line). The inner
  loops (the items of PRINT, the skip to ELSE, the rasterisation of DRAW) are
  functions of their own. Expressions are evaluated by the total
  \<open>eval_expression\<close> of \<open>Eval\<close>; every loop terminates because each round
  consumes a token that is not the end of the input.
\<close>

section \<open>PRINT\<close>

definition ESC :: char where "ESC = CHR 0x1B"

text \<open>The Commodore control characters PRINT translates to ANSI sequences.\<close>

definition cbm_char_text :: "char \<Rightarrow> string" where
  "cbm_char_text c =
     (let n = (of_char c :: nat) in
      if n = 147 then [ESC] @ ''[2J'' @ [ESC] @ ''[H''
      else if n = 19 then [ESC] @ ''[H''
      else if n = 17 then [ESC] @ ''[B''
      else if n = 145 then [ESC] @ ''[A''
      else if n = 157 then [ESC] @ ''[D''
      else if n = 29 then [ESC] @ ''[C''
      else [c])"

definition print_value :: "interp \<Rightarrow> Value \<Rightarrow> interp" where
  "print_value it v =
     (if is_string v then foldl (\<lambda>it c. basic_print it (cbm_char_text c)) it (cstr (str v))
      else basic_print it (format_g (number v)))"

lemma print_value_fields [simp]:
  "program (print_value it v) = program it \<and> variables (print_value it v) = variables it \<and>
   current_line (print_value it v) = current_line it \<and> running (print_value it v) = running it \<and>
   error_occurred (print_value it v) = error_occurred it \<and> ram (print_value it v) = ram it \<and>
   exit_requested (print_value it v) = exit_requested it"
proof -
  have "program (foldl (\<lambda>it c. basic_print it (cbm_char_text c)) it cs) = program it \<and>
        variables (foldl (\<lambda>it c. basic_print it (cbm_char_text c)) it cs) = variables it \<and>
        current_line (foldl (\<lambda>it c. basic_print it (cbm_char_text c)) it cs) = current_line it \<and>
        running (foldl (\<lambda>it c. basic_print it (cbm_char_text c)) it cs) = running it \<and>
        error_occurred (foldl (\<lambda>it c. basic_print it (cbm_char_text c)) it cs) = error_occurred it \<and>
        ram (foldl (\<lambda>it c. basic_print it (cbm_char_text c)) it cs) = ram it \<and>
        exit_requested (foldl (\<lambda>it c. basic_print it (cbm_char_text c)) it cs) = exit_requested it" for cs
    by (induction cs arbitrary: it) auto
  then show ?thesis by (simp add: print_value_def)
qed

lemma printed_print_value:
  "printed (events (print_value it v)) =
     printed (events it) @
     (if is_string v then concat (map cbm_char_text (cstr (str v))) else format_g (number v))"
proof -
  have "printed (events (foldl (\<lambda>it c. basic_print it (cbm_char_text c)) it cs)) =
        printed (events it) @ concat (map cbm_char_text cs)" for cs
    by (induction cs arbitrary: it) auto
  then show ?thesis by (simp add: print_value_def)
qed

definition ends_print :: "token_type \<Rightarrow> bool" where
  "ends_print t \<longleftrightarrow> t = TOK_EOF \<or> t = TOK_NEWLINE \<or> t = TOK_COLON"

lemma eval_next_less:
  "(v, lx1) = eval_expression vs m lx \<Longrightarrow> tok_type (fst (lexer_peek_token lx1)) \<noteq> TOK_EOF \<Longrightarrow>
   rem (snd (lexer_next_token lx1)) < rem lx"
  using eval_expression_after [of vs m lx] rem_lexer_next_token_less [of lx1]
  by (metis lexer_after_rem lexer_peek_token_fst order.strict_trans2 snd_conv)

function print_loop :: "interp \<Rightarrow> lexer \<Rightarrow> interp \<times> lexer" where
  "print_loop it lx =
     (if ends_print (tok_type (fst (lexer_peek_token lx))) then (basic_print it [LF], lx)
      else
        (let (v, lx1) = eval_expression (variables it) (ram it) lx;
             it1 = print_value it v;
             peek = fst (lexer_peek_token lx1)
         in if tok_type peek = TOK_SEMICOLON then print_loop it1 (snd (lexer_next_token lx1))
            else if tok_type peek = TOK_COMMA then
              print_loop (basic_print it1 [TAB]) (snd (lexer_next_token lx1))
            else (basic_print it1 [LF], lx1)))"
  by pat_completeness auto
termination
  by (relation "measure (\<lambda>(it, lx). rem lx)") (auto dest: eval_next_less)

declare print_loop.simps [simp del]

lemma print_loop_after: "lexer_after (snd (print_loop it lx)) lx"
proof (induction it lx rule: print_loop.induct)
  case (1 it lx)
  obtain v lx1 where ev: "eval_expression (variables it) (ram it) lx = (v, lx1)"
    by (cases "eval_expression (variables it) (ram it) lx")
  have a: "lexer_after lx1 lx" using eval_expression_after [of "variables it" "ram it" lx] ev by simp
  show ?case
    using 1 [OF _ ev [symmetric] refl refl] a
    by (subst print_loop.simps) (auto simp: ev Let_def intro: lexer_after_trans)
qed

section \<open>IF, GOTO, assignment\<close>

lemma next_token_less:
  "(tok, lx1) = lexer_next_token lx \<Longrightarrow> tok_type tok \<noteq> TOK_EOF \<Longrightarrow> rem lx1 < rem lx"
  using rem_lexer_next_token_less [of lx] by (metis fst_conv snd_conv)

function skip_to_else :: "lexer \<Rightarrow> lexer" where
  "skip_to_else lx =
     (let (tok, lx1) = lexer_next_token lx in
      if tok_type tok = TOK_EOF \<or> tok_type tok = TOK_NEWLINE \<or> tok_type tok = TOK_ELSE then lx1
      else skip_to_else lx1)"
  by pat_completeness auto
termination
  by (relation "measure rem") (auto dest: next_token_less)

declare skip_to_else.simps [simp del]

lemma skip_to_else_after: "lexer_after (skip_to_else lx) lx"
proof (induction lx rule: skip_to_else.induct)
  case (1 lx)
  obtain tok lx1 where nt: "lexer_next_token lx = (tok, lx1)" by (cases "lexer_next_token lx")
  have "lexer_after lx1 lx" using lexer_after_next [of lx] nt by simp
  then show ?case using 1 [OF nt [symmetric]]
    by (subst skip_to_else.simps) (auto simp: nt intro: lexer_after_trans)
qed

definition emit :: "interp \<Rightarrow> display_event \<Rightarrow> interp" where
  "emit it e = it\<lparr>events := events it @ [e]\<rparr>"

text \<open>
  IF: the condition, then the THEN token. A true condition followed by a number
  literal of an existing line moves \<open>current_line\<close> there and ends the line; a
  number of no line is consumed and execution goes on; otherwise the rest of the
  line is the THEN branch. A false condition skips to after ELSE or to the end.
\<close>

definition exec_if :: "interp \<Rightarrow> lexer \<Rightarrow> interp \<times> lexer \<times> bool" where
  "exec_if it lx =
     (let (cond, lx1) = eval_expression (variables it) (ram it) lx;
          (then_tok, lx2) = lexer_next_token lx1
      in if tok_type then_tok = TOK_THEN then
           (if number cond \<noteq> 0 then
              (let peek = fst (lexer_peek_token lx2) in
               if tok_type peek = TOK_NUMBER then
                 (let lx3 = snd (lexer_next_token lx2) in
                  case program_find_line (program it) (double_to_int (number_value peek)) of
                    Some target \<Rightarrow> (it\<lparr>current_line := Some (line_number target)\<rparr>, lx3, True)
                  | None \<Rightarrow> (it, lx3, False))
               else (it, lx2, False))
            else (it, skip_to_else lx2, False))
         else (it, lx2, False))"

text \<open>GOTO: a number target of an existing line moves \<open>current_line\<close>; the line goes on.\<close>

definition exec_goto :: "interp \<Rightarrow> lexer \<Rightarrow> interp \<times> lexer" where
  "exec_goto it lx =
     (let (v, lx1) = eval_expression (variables it) (ram it) lx in
      if \<not> is_string v then
        (case program_find_line (program it) (double_to_int (number v)) of
           Some target \<Rightarrow> (it\<lparr>current_line := Some (line_number target)\<rparr>, lx1)
         | None \<Rightarrow> ((report_error it ''LINE NOT FOUND'')\<lparr>error_occurred := True\<rparr>, lx1))
      else (it, lx1))"

text \<open>
  LET or a bare identifier: the target name (\<open>str_duplicate\<close> of the token text),
  the \<open>=\<close> token, the value, stored by its tag.
\<close>

definition exec_let :: "interp \<Rightarrow> token \<Rightarrow> lexer \<Rightarrow> interp \<times> lexer" where
  "exec_let it tok lx =
     (let (name, lx1) =
        (if tok_type tok = TOK_IDENTIFIER then (tok_text tok, lx)
         else (let (t2, l) = lexer_next_token lx in
               (if tok_type t2 = TOK_IDENTIFIER then tok_text t2 else None, l)))
      in case name of
           None \<Rightarrow> (it, lx1)
         | Some n \<Rightarrow>
             (let (eq, lx2) = lexer_next_token lx1 in
              if tok_type eq = TOK_EQUAL then
                (let (v, lx3) = eval_expression (variables it) (ram it) lx2 in
                 (if is_string v then it\<lparr>variables := var_set_string (variables it) n (str v)\<rparr>
                  else it\<lparr>variables := var_set_number (variables it) n (number v)\<rparr>, lx3))
              else (it, lx2)))"

text \<open>
  POKE: the address and the value as numbers, cast to \<open>uint16_t\<close> and
  \<open>uint8_t\<close>; the byte is stored, and with an editor attached the two border and
  background registers and the 1000 bytes of screen memory from 1024 are forwarded.
\<close>

definition exec_poke :: "interp \<Rightarrow> lexer \<Rightarrow> interp \<times> lexer" where
  "exec_poke it lx =
     (let (a, lx1) = eval_expression (variables it) (ram it) lx;
          lx2 = snd (lexer_next_token lx1);
          (v, lx3) = eval_expression (variables it) (ram it) lx2
      in if \<not> is_string a \<and> \<not> is_string v then
           (let ad = double_to_u16 (number a); b = double_to_u8 (number v);
                it1 = it\<lparr>ram := (ram it)(ad := b)\<rparr>
            in (if editor it \<noteq> None then
                  (if ad = 53280 \<or> ad = 53281 then emit it1 (Set_background b)
                   else if 1024 \<le> ad \<and> ad \<le> 2023 then emit it1 (Poke_char ad b) else it1)
                else it1, lx3))
         else (it, lx3))"

definition exec_plot :: "interp \<Rightarrow> lexer \<Rightarrow> interp \<times> lexer" where
  "exec_plot it lx =
     (let (vx, lx1) = eval_expression (variables it) (ram it) lx;
          lx2 = snd (lexer_next_token lx1);
          (vy, lx3) = eval_expression (variables it) (ram it) lx2
      in if \<not> is_string vx \<and> \<not> is_string vy then
           (it\<lparr>graphics_x := number vx, graphics_y := number vy\<rparr>, lx3)
         else (it, lx3))"

section \<open>DRAW\<close>

text \<open>
  The loop of \<open>draw_line\<close>: plot, stop at the end point, otherwise step in x, in y
  or in both by the sign of the doubled error term. \<open>bres\<close> holds the loop's
  constants (end point, distances and directions). The loop has no syntactic bound,
  so it takes fuel; \<open>draw_loop_enough\<close> shows that \<open>dx + dy + 1\<close> rounds suffice.
\<close>

type_synonym bres = "int \<times> int \<times> int \<times> int \<times> int \<times> int"

fun draw_loop :: "nat \<Rightarrow> bres \<Rightarrow> int \<Rightarrow> int \<Rightarrow> int \<Rightarrow> (int \<times> int) list option" where
  "draw_loop f (x2, y2, dx, dy, sx, sy) x y err =
     (if f = 0 then None
      else if x = x2 \<and> y = y2 then Some [(x, y)]
      else
        (let e2 = 2 * err;
             (err1, x1) = (if e2 > - dy then (err - dy, x + sx) else (err, x));
             (err2, y1) = (if e2 < dx then (err1 + dx, y + sy) else (err1, y))
         in map_option (Cons (x, y)) (draw_loop (f - 1) (x2, y2, dx, dy, sx, sy) x1 y1 err2)))"

declare draw_loop.simps [simp del]

lemma draw_loop_0 [simp]: "draw_loop 0 b x y err = None"
  by (cases b) (simp add: draw_loop.simps)

lemma draw_loop_Suc:
  "draw_loop (Suc f) (x2, y2, dx, dy, sx, sy) x y err =
     (if x = x2 \<and> y = y2 then Some [(x, y)]
      else
        (let e2 = 2 * err;
             (err1, x1) = (if e2 > - dy then (err - dy, x + sx) else (err, x));
             (err2, y1) = (if e2 < dx then (err1 + dx, y + sy) else (err1, y))
         in map_option (Cons (x, y)) (draw_loop f (x2, y2, dx, dy, sx, sy) x1 y1 err2)))"
  by (subst draw_loop.simps) simp

definition draw_line :: "interp \<Rightarrow> int \<Rightarrow> int \<Rightarrow> int \<Rightarrow> int \<Rightarrow> interp" where
  "draw_line it x1 y1 x2 y2 =
     (case editor it of
        None \<Rightarrow> it
      | Some ed \<Rightarrow>
          (let tx1 = (x1 * cols ed) sdiv 320; ty1 = (y1 * rows ed) sdiv 200;
               tx2 = (x2 * cols ed) sdiv 320; ty2 = (y2 * rows ed) sdiv 200;
               dx = \<bar>tx2 - tx1\<bar>; dy = \<bar>ty2 - ty1\<bar>;
               sx = (if tx1 < tx2 then 1 else -1); sy = (if ty1 < ty2 then 1 else -1)
           in case draw_loop (nat (dx + dy) + 1) (tx2, ty2, dx, dy, sx, sy) tx1 ty1 (dx - dy) of
                Some pts \<Rightarrow> it\<lparr>events := events it @ map (\<lambda>(x, y). Plot_char x y (CHR ''*'')) pts\<rparr>
              | None \<Rightarrow> it))"

text \<open>
  The loop invariant: with \<open>u = sx * (x2 - x)\<close> and \<open>v = sy * (y2 - y)\<close> the
  distances still to go, \<open>0 \<le> u \<le> dx\<close>, \<open>0 \<le> v \<le> dy\<close> and
  \<open>err = dx - dy + u * dy - v * dx\<close>.
\<close>

definition bres_inv :: "bres \<Rightarrow> int \<Rightarrow> int \<Rightarrow> int \<Rightarrow> bool" where
  "bres_inv b x y err =
     (case b of (x2, y2, dx, dy, sx, sy) \<Rightarrow>
        (sx = 1 \<or> sx = -1) \<and> (sy = 1 \<or> sy = -1) \<and>
        0 \<le> sx * (x2 - x) \<and> sx * (x2 - x) \<le> dx \<and> 0 \<le> sy * (y2 - y) \<and> sy * (y2 - y) \<le> dy \<and>
        err = dx - dy + sx * (x2 - x) * dy - sy * (y2 - y) * dx)"

lemma bres_step_x:
  fixes u v dx dy :: int
  assumes "0 \<le> u" "0 \<le> v" "v \<le> dy" "0 \<le> dx" "\<not> (u = 0 \<and> v = 0)"
    and "2 * (dx - dy + u * dy - v * dx) > - dy"
  shows "0 < u"
proof (rule ccontr)
  assume "\<not> 0 < u"
  then have u: "u = 0" using assms(1) by simp
  then have v: "1 \<le> v" using assms(2,5) by simp
  have "dx * 1 \<le> dx * v" using v assms(4) by (rule mult_left_mono)
  then have k: "dx \<le> v * dx" by (simp add: mult.commute)
  have e: "2 * (dx - dy + u * dy - v * dx) = 2 * dx - 2 * dy - 2 * (v * dx)"
    using u by (simp add: algebra_simps)
  show False using assms(2,3,6) e k by linarith
qed

lemma bres_step_y:
  fixes u v dx dy :: int
  assumes "0 \<le> u" "u \<le> dx" "0 \<le> v" "0 \<le> dy" "\<not> (u = 0 \<and> v = 0)"
    and "2 * (dx - dy + u * dy - v * dx) < dx"
  shows "0 < v"
proof (rule ccontr)
  assume "\<not> 0 < v"
  then have v: "v = 0" using assms(3) by simp
  then have u: "1 \<le> u" using assms(1,5) by simp
  have "dy * 1 \<le> dy * u" using u assms(4) by (rule mult_left_mono)
  then have k: "dy \<le> u * dy" by (simp add: mult.commute)
  have e: "2 * (dx - dy + u * dy - v * dx) = 2 * dx - 2 * dy + 2 * (u * dy)"
    using v by (simp add: algebra_simps)
  show False using assms(1,2,6) e k by linarith
qed

lemma bres_step:
  assumes inv: "bres_inv (x2, y2, dx, dy, sx, sy) x y err" and ne: "\<not> (x = x2 \<and> y = y2)"
    and s1: "(err1, x1) = (if 2 * err > - dy then (err - dy, x + sx) else (err, x))"
    and s2: "(err2, y1) = (if 2 * err < dx then (err1 + dx, y + sy) else (err1, y))"
  shows "bres_inv (x2, y2, dx, dy, sx, sy) x1 y1 err2 \<and>
         sx * (x2 - x1) + sy * (y2 - y1) < sx * (x2 - x) + sy * (y2 - y)"
proof -
  define u where "u = sx * (x2 - x)"
  define v where "v = sy * (y2 - y)"
  have sx: "sx * sx = 1" "sx \<noteq> 0" and sy: "sy * sy = 1" "sy \<noteq> 0"
    using inv by (auto simp: bres_inv_def)
  have b: "0 \<le> u" "u \<le> dx" "0 \<le> v" "v \<le> dy" and e: "err = dx - dy + u * dy - v * dx"
    using inv by (auto simp: bres_inv_def u_def v_def)
  have nz: "\<not> (u = 0 \<and> v = 0)" using ne sx(2) sy(2) by (auto simp: u_def v_def)
  have ux: "sx * (x2 - (x + sx)) = u - 1" using sx(1) by (simp add: u_def algebra_simps)
  have vy: "sy * (y2 - (y + sy)) = v - 1" using sy(1) by (simp add: v_def algebra_simps)
  have A: "0 < u" if "2 * err > - dy"
    using bres_step_x [of u v dy dx] b nz that e by simp
  have B: "0 < v" if "2 * err < dx"
    using bres_step_y [of u dx v dy] b nz that e by simp
  have AB: "2 * err > - dy \<or> 2 * err < dx" using b nz by linarith
  have x1: "sx * (x2 - x1) = (if 2 * err > - dy then u - 1 else u)"
   and err1: "err1 = (if 2 * err > - dy then err - dy else err)"
    using s1 ux by (auto simp: u_def split: if_splits)
  have y1: "sy * (y2 - y1) = (if 2 * err < dx then v - 1 else v)"
   and err2: "err2 = (if 2 * err < dx then err1 + dx else err1)"
    using s2 vy by (auto simp: v_def split: if_splits)
  have inv': "err2 = dx - dy + sx * (x2 - x1) * dy - sy * (y2 - y1) * dx"
    using x1 y1 err1 err2 e by (simp add: algebra_simps split: if_splits)
  show ?thesis
    using inv inv' x1 y1 A B AB b by (auto simp: bres_inv_def u_def v_def split: if_splits)
qed

lemma draw_loop_enough:
  "bres_inv (x2, y2, dx, dy, sx, sy) x y err \<Longrightarrow> nat (sx * (x2 - x) + sy * (y2 - y)) < f \<Longrightarrow>
   \<exists>pts. draw_loop f (x2, y2, dx, dy, sx, sy) x y err = Some pts \<and>
         pts \<noteq> [] \<and> hd pts = (x, y) \<and> last pts = (x2, y2)"
proof (induction f arbitrary: x y err)
  case (Suc f)
  show ?case
  proof (cases "x = x2 \<and> y = y2")
    case False
    obtain err1 x1 where s1: "(err1, x1) = (if 2 * err > - dy then (err - dy, x + sx) else (err, x))"
      by (metis surj_pair)
    obtain err2 y1 where s2: "(err2, y1) = (if 2 * err < dx then (err1 + dx, y + sy) else (err1, y))"
      by (metis surj_pair)
    have st: "bres_inv (x2, y2, dx, dy, sx, sy) x1 y1 err2 \<and>
              sx * (x2 - x1) + sy * (y2 - y1) < sx * (x2 - x) + sy * (y2 - y)"
      using bres_step [OF Suc.prems(1) False s1 s2] .
    have "0 \<le> sx * (x2 - x1) + sy * (y2 - y1)" using st by (auto simp: bres_inv_def)
    then have "nat (sx * (x2 - x1) + sy * (y2 - y1)) < f" using st Suc.prems(2) by linarith
    then obtain pts where "draw_loop f (x2, y2, dx, dy, sx, sy) x1 y1 err2 = Some pts"
        "pts \<noteq> []" "last pts = (x2, y2)"
      using Suc.IH st by blast
    moreover have "draw_loop (Suc f) (x2, y2, dx, dy, sx, sy) x y err =
        map_option (Cons (x, y)) (draw_loop f (x2, y2, dx, dy, sx, sy) x1 y1 err2)"
      using s1 s2 False
      by (cases "2 * err > - dy"; cases "2 * err < dx") (auto simp: draw_loop_Suc)
    ultimately show ?thesis by (cases pts) auto
  qed (simp add: draw_loop_Suc)
qed simp

lemma bres_init:
  "bres_inv (x2, y2, \<bar>x2 - x1\<bar>, \<bar>y2 - y1\<bar>, if x1 < x2 then 1 else -1, if y1 < y2 then 1 else -1)
     x1 y1 (\<bar>x2 - x1\<bar> - \<bar>y2 - y1\<bar>)"
  by (auto simp: bres_inv_def algebra_simps)

lemma draw_loop_init:
  "\<exists>pts. draw_loop (nat (\<bar>x2 - x1\<bar> + \<bar>y2 - y1\<bar>) + 1)
           (x2, y2, \<bar>x2 - x1\<bar>, \<bar>y2 - y1\<bar>, if x1 < x2 then 1 else -1, if y1 < y2 then 1 else -1)
           x1 y1 (\<bar>x2 - x1\<bar> - \<bar>y2 - y1\<bar>) = Some pts \<and>
         pts \<noteq> [] \<and> hd pts = (x1, y1) \<and> last pts = (x2, y2)"
proof (rule draw_loop_enough [OF bres_init])
  have "(if x1 < x2 then 1 else -1) * (x2 - x1) = \<bar>x2 - x1\<bar>"
       "(if y1 < y2 then 1 else -1) * (y2 - y1) = \<bar>y2 - y1\<bar>" by auto
  then show "nat ((if x1 < x2 then 1 else -1) * (x2 - x1) + (if y1 < y2 then 1 else -1) * (y2 - y1))
             < nat (\<bar>x2 - x1\<bar> + \<bar>y2 - y1\<bar>) + 1" by simp
qed

definition exec_draw :: "interp \<Rightarrow> lexer \<Rightarrow> interp \<times> lexer" where
  "exec_draw it lx =
     (let (vx, lx1) = eval_expression (variables it) (ram it) lx;
          lx2 = snd (lexer_next_token lx1);
          (vy, lx3) = eval_expression (variables it) (ram it) lx2
      in if \<not> is_string vx \<and> \<not> is_string vy then
           ((draw_line it (double_to_int (graphics_x it)) (double_to_int (graphics_y it))
               (double_to_int (number vx)) (double_to_int (number vy)))
              \<lparr>graphics_x := number vx, graphics_y := number vy\<rparr>, lx3)
         else (it, lx3))"

section \<open>The statement loop\<close>

text \<open>One branch of the if-chain: the new state, the lexer after it, and \<open>break\<close>.\<close>

definition exec_statement :: "interp \<Rightarrow> token \<Rightarrow> lexer \<Rightarrow> interp \<times> lexer \<times> bool" where
  "exec_statement it tok lx =
     (let t = tok_type tok in
      if t = TOK_PRINT \<or> t = TOK_QUESTION then (let (it', lx') = print_loop it lx in (it', lx', False))
      else if t = TOK_IF then exec_if it lx
      else if t = TOK_GOTO then (let (it', lx') = exec_goto it lx in (it', lx', False))
      else if t = TOK_LET \<or> t = TOK_IDENTIFIER then (let (it', lx') = exec_let it tok lx in (it', lx', False))
      else if t = TOK_POKE then (let (it', lx') = exec_poke it lx in (it', lx', False))
      else if t = TOK_PLOT then (let (it', lx') = exec_plot it lx in (it', lx', False))
      else if t = TOK_DRAW then (let (it', lx') = exec_draw it lx in (it', lx', False))
      else if t = TOK_EXIT then (it\<lparr>exit_requested := True, running := False\<rparr>, lx, True)
      else if t = TOK_END \<or> t = TOK_STOP then (it\<lparr>running := False\<rparr>, lx, True)
      else if t = TOK_COLON then (it, lx, False)
      else if t = TOK_REM then (it, lx, True)
      else (it, lx, False))"

lemma eval_after_pair:
  "eval_expression vs m lx = (v, lx1) \<Longrightarrow> lexer_after lx1 lx"
  using eval_expression_after [of vs m lx] by simp

lemma next_pair_after: "lexer_next_token lx = (t, lx1) \<Longrightarrow> lexer_after lx1 lx"
  using lexer_after_next [of lx] by simp

lemma exec_if_after: "lexer_after (fst (snd (exec_if it lx))) lx"
proof -
  obtain c lx1 where ev: "eval_expression (variables it) (ram it) lx = (c, lx1)" by fastforce
  obtain t lx2 where nt: "lexer_next_token lx1 = (t, lx2)" by fastforce
  have a: "lexer_after lx2 lx" using eval_after_pair [OF ev] next_pair_after [OF nt] lexer_after_trans by blast
  have "fst (snd (exec_if it lx)) \<in> {lx2, snd (lexer_next_token lx2), skip_to_else lx2}"
    by (simp add: exec_if_def ev nt Let_def split: option.split)
  then show ?thesis using a lexer_after_trans [OF skip_to_else_after a] lexer_after_next_trans [OF a] by auto
qed

lemma exec_goto_after: "lexer_after (snd (exec_goto it lx)) lx"
proof -
  obtain v lx1 where ev: "eval_expression (variables it) (ram it) lx = (v, lx1)" by fastforce
  have "snd (exec_goto it lx) = lx1" by (simp add: exec_goto_def ev split: option.split)
  then show ?thesis using eval_after_pair [OF ev] by simp
qed

lemma exec_let_after: "lexer_after (snd (exec_let it tok lx)) lx"
proof -
  obtain name lx1 where nm: "(if tok_type tok = TOK_IDENTIFIER then (tok_text tok, lx)
         else (let (t2, l) = lexer_next_token lx in
               (if tok_type t2 = TOK_IDENTIFIER then tok_text t2 else None, l))) = (name, lx1)" by fastforce
  have a1: "lexer_after lx1 lx" using nm
    by (auto simp: Let_def split: if_splits prod.splits dest: next_pair_after)
  show ?thesis
  proof (cases name)
    case None
    then show ?thesis using a1 nm by (simp add: exec_let_def)
  next
    case (Some n)
    obtain eq lx2 where nt: "lexer_next_token lx1 = (eq, lx2)" by fastforce
    obtain v lx3 where ev: "eval_expression (variables it) (ram it) lx2 = (v, lx3)" by fastforce
    have a2: "lexer_after lx2 lx" using a1 next_pair_after [OF nt] lexer_after_trans by blast
    have a3: "lexer_after lx3 lx" using a2 eval_after_pair [OF ev] lexer_after_trans by blast
    have "snd (exec_let it tok lx) \<in> {lx2, lx3}"
      using nm by (simp add: exec_let_def Some nt ev)
    then show ?thesis using a2 a3 by auto
  qed
qed

lemma two_eval_after:
  assumes "eval_expression vs m lx = (a, lx1)" "eval_expression vs m (snd (lexer_next_token lx1)) = (b, lx3)"
  shows "lexer_after lx3 lx"
  using eval_after_pair [OF assms(1)] eval_after_pair [OF assms(2)] lexer_after_next_trans lexer_after_trans
  by blast

lemma exec_poke_after: "lexer_after (snd (exec_poke it lx)) lx"
proof -
  obtain a lx1 where e1: "eval_expression (variables it) (ram it) lx = (a, lx1)" by fastforce
  obtain v lx3 where e2: "eval_expression (variables it) (ram it) (snd (lexer_next_token lx1)) = (v, lx3)"
    by fastforce
  have "snd (exec_poke it lx) = lx3" by (simp add: exec_poke_def e1 e2 Let_def)
  then show ?thesis using two_eval_after [OF e1 e2] by simp
qed

lemma exec_plot_after: "lexer_after (snd (exec_plot it lx)) lx"
proof -
  obtain a lx1 where e1: "eval_expression (variables it) (ram it) lx = (a, lx1)" by fastforce
  obtain v lx3 where e2: "eval_expression (variables it) (ram it) (snd (lexer_next_token lx1)) = (v, lx3)"
    by fastforce
  have "snd (exec_plot it lx) = lx3" by (simp add: exec_plot_def e1 e2 Let_def)
  then show ?thesis using two_eval_after [OF e1 e2] by simp
qed

lemma exec_draw_after: "lexer_after (snd (exec_draw it lx)) lx"
proof -
  obtain a lx1 where e1: "eval_expression (variables it) (ram it) lx = (a, lx1)" by fastforce
  obtain v lx3 where e2: "eval_expression (variables it) (ram it) (snd (lexer_next_token lx1)) = (v, lx3)"
    by fastforce
  have "snd (exec_draw it lx) = lx3" by (simp add: exec_draw_def e1 e2 Let_def)
  then show ?thesis using two_eval_after [OF e1 e2] by simp
qed

lemma exec_statement_after: "lexer_after (fst (snd (exec_statement it tok lx))) lx"
  using print_loop_after [of it lx] exec_if_after [of it lx] exec_goto_after [of it lx]
    exec_let_after [of it tok lx] exec_poke_after [of it lx] exec_plot_after [of it lx]
    exec_draw_after [of it lx]
  by (auto simp: exec_statement_def Let_def split: prod.split)

lemma exec_statement_less:
  "(tok, lx1) = lexer_next_token lx \<Longrightarrow> tok_type tok \<noteq> TOK_EOF \<Longrightarrow>
   (it', lx', stop) = exec_statement it tok lx1 \<Longrightarrow> rem lx' < rem lx"
proof -
  assume nt: "(tok, lx1) = lexer_next_token lx" and ne: "tok_type tok \<noteq> TOK_EOF"
    and st: "(it', lx', stop) = exec_statement it tok lx1"
  have "lexer_after lx' lx1" using exec_statement_after [of it tok lx1] unfolding st [symmetric] by simp
  then show ?thesis using next_token_less [OF nt ne] lexer_after_rem by fastforce
qed

text \<open>The \<open>while (true)\<close> loop of \<open>interpreter_execute_line\<close>.\<close>

function exec_statements :: "interp \<Rightarrow> lexer \<Rightarrow> interp" where
  "exec_statements it lx =
     (let (tok, lx1) = lexer_next_token lx in
      if tok_type tok = TOK_EOF \<or> tok_type tok = TOK_NEWLINE then it
      else (let (it', lx', stop) = exec_statement it tok lx1 in
            if stop then it' else exec_statements it' lx'))"
  by pat_completeness auto
termination
proof (relation "measure (\<lambda>(it, lx). rem lx)", goal_cases)
  case 1
  then show ?case by simp
next
  case (2 it lx x tok lx1 r it' s lx' stop)
  then have "rem lx' < rem lx" using exec_statement_less [of tok lx1 lx it' lx' stop it] by simp
  then show ?case by simp
qed

declare exec_statements.simps [simp del]

definition interpreter_execute_line :: "interp \<Rightarrow> string \<Rightarrow> interp" where
  "interpreter_execute_line it s = exec_statements it (lexer_init s)"

section \<open>Invariants of the executor\<close>

text \<open>
  \<open>cursor_ok\<close>: the current line is none or the number of a line of the program;
  \<open>exec_inv\<close> adds that the variable names are distinct up to case.
\<close>

definition cursor_ok :: "program \<Rightarrow> int option \<Rightarrow> bool" where
  "cursor_ok prog c \<longleftrightarrow> (case c of None \<Rightarrow> True | Some n \<Rightarrow> program_find_line prog n \<noteq> None)"

definition exec_inv :: "interp \<Rightarrow> bool" where
  "exec_inv it \<longleftrightarrow> vars_ok (variables it) \<and> cursor_ok (program it) (current_line it)"

lemma cursor_ok_target:
  "program_find_line prog n = Some l \<Longrightarrow> cursor_ok prog (Some (line_number l))"
  using program_find_line_number [of prog n l] by (simp add: cursor_ok_def)

lemma vars_ok_var_set_number: "vars_ok vs \<Longrightarrow> vars_ok (var_set_number vs n x)"
  using var_set_correct by (simp add: var_set_number_eq)

lemma vars_ok_var_set_string: "vars_ok vs \<Longrightarrow> vars_ok (var_set_string vs n s)"
  using var_set_correct by (simp add: var_set_string_eq)

text \<open>What a statement leaves alone and what it keeps well-formed.\<close>

definition stmt_ok :: "interp \<Rightarrow> interp \<Rightarrow> bool" where
  "stmt_ok it it' \<longleftrightarrow> program it' = program it \<and> (exec_inv it \<longrightarrow> exec_inv it')"

lemma stmt_ok_refl [simp]: "stmt_ok it it"
  by (simp add: stmt_ok_def)

lemma stmt_ok_trans: "stmt_ok a b \<Longrightarrow> stmt_ok b c \<Longrightarrow> stmt_ok a c"
  by (simp add: stmt_ok_def)

lemma stmt_ok_frame:
  "program it' = program it \<Longrightarrow> variables it' = variables it \<Longrightarrow> current_line it' = current_line it \<Longrightarrow>
   stmt_ok it it'"
  by (simp add: stmt_ok_def exec_inv_def)

lemma print_loop_ok: "stmt_ok it (fst (print_loop it lx))"
proof (induction it lx rule: print_loop.induct)
  case (1 it lx)
  obtain v lx1 where ev: "eval_expression (variables it) (ram it) lx = (v, lx1)" by fastforce
  have f: "stmt_ok it (print_value it v)" "stmt_ok it (basic_print (print_value it v) s)" for s
    by (auto intro: stmt_ok_frame)
  show ?case
    using 1 [OF _ ev [symmetric] refl refl] f stmt_ok_frame [of "basic_print it [LF]" it]
    by (subst print_loop.simps) (auto simp: ev Let_def intro: stmt_ok_trans)
qed

lemma draw_line_fields [simp]:
  "program (draw_line it a b c d) = program it" "variables (draw_line it a b c d) = variables it"
  "current_line (draw_line it a b c d) = current_line it" "running (draw_line it a b c d) = running it"
  "error_occurred (draw_line it a b c d) = error_occurred it" "ram (draw_line it a b c d) = ram it"
  "exit_requested (draw_line it a b c d) = exit_requested it"
  by (simp_all add: draw_line_def Let_def split: option.split)

lemma emit_fields [simp]:
  "program (emit it e) = program it" "variables (emit it e) = variables it"
  "current_line (emit it e) = current_line it" "running (emit it e) = running it"
  "error_occurred (emit it e) = error_occurred it" "ram (emit it e) = ram it"
  by (simp_all add: emit_def)

lemma handlers_ok:
  "stmt_ok it (fst (exec_if it lx))" "stmt_ok it (fst (exec_goto it lx))"
  "stmt_ok it (fst (exec_let it tok lx))" "stmt_ok it (fst (exec_poke it lx))"
  "stmt_ok it (fst (exec_plot it lx))" "stmt_ok it (fst (exec_draw it lx))"
  by (auto simp: exec_if_def exec_goto_def exec_let_def exec_poke_def exec_plot_def exec_draw_def
      Let_def stmt_ok_def exec_inv_def cursor_ok_target vars_ok_var_set_number vars_ok_var_set_string
      split: prod.split option.split)

lemma exec_statement_ok: "stmt_ok it (fst (exec_statement it tok lx))"
  using print_loop_ok [of it lx] handlers_ok(1,2,4,5,6) [of it lx] handlers_ok(3) [of it tok lx]
  by (auto simp: exec_statement_def Let_def split: prod.split intro: stmt_ok_frame)

lemma exec_statements_ok: "stmt_ok it (exec_statements it lx)"
proof (induction it lx rule: exec_statements.induct)
  case (1 it lx)
  obtain tok lx1 where nt: "lexer_next_token lx = (tok, lx1)" by fastforce
  obtain it' lx' stop where st: "exec_statement it tok lx1 = (it', lx', stop)" by (metis prod_cases3)
  have s1: "stmt_ok it it'" using exec_statement_ok [of it tok lx1] st by simp
  have ih: "\<not> stop \<Longrightarrow> stmt_ok it' (exec_statements it' lx')"
    if "\<not> (tok_type tok = TOK_EOF \<or> tok_type tok = TOK_NEWLINE)"
    using 1 [OF refl nt [symmetric] that refl st [symmetric] refl] by simp
  show ?case using s1 ih
    by (subst exec_statements.simps) (auto simp: nt st intro: stmt_ok_trans)
qed

lemma execute_line_ok: "stmt_ok it (interpreter_execute_line it s)"
  by (simp add: interpreter_execute_line_def exec_statements_ok)

lemma draw_line_plots:
  assumes "editor it = Some ed"
  shows "\<exists>pts. events (draw_line it x1 y1 x2 y2) = events it @ map (\<lambda>(x, y). Plot_char x y (CHR ''*'')) pts \<and>
           pts \<noteq> [] \<and> hd pts = ((x1 * cols ed) sdiv 320, (y1 * rows ed) sdiv 200) \<and>
           last pts = ((x2 * cols ed) sdiv 320, (y2 * rows ed) sdiv 200)"
  using draw_loop_init [of "(x2 * cols ed) sdiv 320" "(x1 * cols ed) sdiv 320"
      "(y2 * rows ed) sdiv 200" "(y1 * rows ed) sdiv 200"] assms
  by (auto simp: draw_line_def Let_def)

lemma next_type_at_end: "rem lx = 0 \<Longrightarrow> next_type lx = TOK_EOF"
  using rem_lexer_next_token_less [of lx] by linarith

lemma exec_statements_end: "rem lx = 0 \<Longrightarrow> exec_statements it lx = it"
proof -
  assume r: "rem lx = 0"
  obtain tok lx1 where nt: "lexer_next_token lx = (tok, lx1)" by fastforce
  then have "tok_type tok = TOK_EOF" using next_type_at_end [OF r] by simp
  then show ?thesis by (subst exec_statements.simps) (simp add: nt)
qed

section \<open>Properties of the executor\<close>

text \<open>
  C2: executing a line never edits the program, keeps the variable names distinct up
  to case, and leaves the current line either unchanged or on a line of the program.
\<close>

theorem execute_line_invariant:
  "exec_inv it \<Longrightarrow>
   program (interpreter_execute_line it s) = program it \<and> exec_inv (interpreter_execute_line it s)"
  using execute_line_ok [of it s] by (simp add: stmt_ok_def)

theorem execute_line_invariant_witness:
  "program (interpreter_execute_line interpreter_init ''X=1'') = [] \<and>
   exec_inv (interpreter_execute_line interpreter_init ''X=1'')"
proof -
  have "exec_inv interpreter_init" by (simp add: exec_inv_def interpreter_init_def cursor_ok_def)
  then show ?thesis using execute_line_invariant [of interpreter_init "''X=1''"]
    by (simp add: interpreter_init_def)
qed

text \<open>
  C15: the separators of PRINT, from any state: \<open>PRINT "A";"B"\<close> prints \<open>AB\<close> and a
  newline, \<open>PRINT "A","B"\<close> prints \<open>A\<close>, a tab, \<open>B\<close> and a newline, and a
  trailing \<open>;\<close> still ends with a newline.
\<close>

theorem print_separators:
  "events (interpreter_execute_line it ''PRINT \"A\";\"B\"'') = events it @ [Print ''A'', Print ''B'', Print [LF]] \<and>
   events (interpreter_execute_line it ''PRINT \"A\",\"B\"'') = events it @ [Print ''A'', Print [TAB], Print ''B'', Print [LF]] \<and>
   events (interpreter_execute_line it ''PRINT \"A\";'') = events it @ [Print ''A'', Print [LF]]"
proof (intro conjI)
  show "events (interpreter_execute_line it ''PRINT \"A\";\"B\"'') = events it @ [Print ''A'', Print ''B'', Print [LF]]"
    apply code_simp
    apply simp
    done
  show "events (interpreter_execute_line it ''PRINT \"A\",\"B\"'') =
      events it @ [Print ''A'', Print [TAB], Print ''B'', Print [LF]]"
    apply code_simp
    apply simp
    done
  show "events (interpreter_execute_line it ''PRINT \"A\";'') = events it @ [Print ''A'', Print [LF]]"
    apply code_simp
    apply simp
    done
qed

lemma if_one_then_100:
  "interpreter_execute_line it ''IF 1 THEN 100'' =
   (case program_find_line (program it) 100 of Some t \<Rightarrow> it\<lparr>current_line := Some (line_number t)\<rparr> | None \<Rightarrow> it)"
  apply code_simp
  apply (simp add: exec_statements_end rem_def split: option.split)
  done

text \<open>
  C8: IF with a line number: \<open>IF 0 THEN 100\<close> changes nothing, and \<open>IF 1 THEN 100\<close>
  moves the current line to 100 when the program has a line 100.
\<close>

theorem if_then_line:
  "interpreter_execute_line it ''IF 0 THEN 100'' = it \<and>
   (program_find_line (program it) 100 \<noteq> None \<longrightarrow>
    current_line (interpreter_execute_line it ''IF 1 THEN 100'') = Some 100)"
proof
  show "interpreter_execute_line it ''IF 0 THEN 100'' = it" by code_simp
  show "program_find_line (program it) 100 \<noteq> None \<longrightarrow>
    current_line (interpreter_execute_line it ''IF 1 THEN 100'') = Some 100"
    using program_find_line_number [of "program it" 100] by (auto simp: if_one_then_100)
qed

theorem if_then_line_witness:
  "current_line (interpreter_execute_line
     (interpreter_init\<lparr>program := [\<lparr>line_number = 100, line_text = ''END''\<rparr>]\<rparr>) ''IF 1 THEN 100'') = Some 100"
proof -
  have "program_find_line [\<lparr>line_number = 100, line_text = ''END''\<rparr>] 100 \<noteq> None" by simp
  then show ?thesis
    using if_then_line [of "interpreter_init\<lparr>program := [\<lparr>line_number = 100, line_text = ''END''\<rparr>]\<rparr>"] by simp
qed

text \<open>
  C9: GOTO to a line the program does not have reports "LINE NOT FOUND" on
  \<open>stderr\<close> and sets the error flag; to a line it has, it moves the current line.
\<close>

theorem goto_line:
  "interpreter_execute_line it ''GOTO 50'' =
   (case program_find_line (program it) 50 of
      Some t \<Rightarrow> it\<lparr>current_line := Some (line_number t)\<rparr>
    | None \<Rightarrow> it\<lparr>events := events it @ [Stderr (''?LINE NOT FOUND ERROR'' @ [LF])], error_occurred := True\<rparr>)"
  apply code_simp
  apply (simp add: report_error_def exec_statements_end rem_def split: option.split)
  done

lemma exec_poke_ram:
  "ram (fst (exec_poke it lx)) =
     (let (a, lx1) = eval_expression (variables it) (ram it) lx;
          (v, lx3) = eval_expression (variables it) (ram it) (snd (lexer_next_token lx1))
      in if \<not> is_string a \<and> \<not> is_string v then (ram it)(double_to_u16 (number a) := double_to_u8 (number v))
         else ram it)"
  by (simp add: exec_poke_def Let_def case_prod_beta)

text \<open>
  C27: POKE casts address and value to \<open>uint16_t\<close> and \<open>uint8_t\<close>: for any
  two numeric arguments, PEEK at the same address afterwards reads the value modulo
  256 (the address wraps modulo 65536 the same way on both sides), and no other
  byte of memory changes.
\<close>

theorem poke_wraps:
  assumes "eval_expression (variables it) (ram it) lx = (a, lx1)"
    "eval_expression (variables it) (ram it) (snd (lexer_next_token lx1)) = (v, lx3)"
    "\<not> is_string a" "\<not> is_string v"
  shows "number (peek_value (ram (fst (exec_poke it lx))) a) = of_int (double_to_int (number v) mod 256) \<and>
         (\<forall>x. x \<noteq> double_to_u16 (number a) \<longrightarrow> ram (fst (exec_poke it lx)) x = ram it x)"
  using assms uint_double_to_u8 [of "number v"]
  by (simp add: exec_poke_ram peek_value_def num_value_def unat_eq_nat_uint)

lemma poke_wraps_witness:
  "number (peek_value (ram (fst (exec_poke interpreter_init (lexer_init ''65537,300''))))
                      (fst (eval_expression [] (\<lambda>_. 0) (lexer_init ''65537,300'')))) = 44"
proof -
  obtain a lx1 where e1: "eval_expression [] (\<lambda>_. 0) (lexer_init ''65537,300'') = (a, lx1)" by fastforce
  obtain v lx3 where e2: "eval_expression [] (\<lambda>_. 0) (snd (lexer_next_token lx1)) = (v, lx3)" by fastforce
  have n: "\<not> is_string a \<and> number a = 65537 \<and> \<not> is_string v \<and> number v = 300"
  proof -
    have "case eval_expression [] (\<lambda>_. 0) (lexer_init ''65537,300'') of (a, lx1) \<Rightarrow>
          \<not> is_string a \<and> number a = 65537 \<and>
          \<not> is_string (fst (eval_expression [] (\<lambda>_. 0) (snd (lexer_next_token lx1)))) \<and>
          number (fst (eval_expression [] (\<lambda>_. 0) (snd (lexer_next_token lx1)))) = 300" by code_simp
    then show ?thesis using e1 e2 by simp
  qed
  have "double_to_int 300 mod 256 = 44" by (simp add: double_to_int_def c_trunc_def INT_MIN_def INT_MAX_def)
  then show ?thesis
    using poke_wraps [of interpreter_init "lexer_init ''65537,300''" a lx1 v lx3] e1 e2 n
    by (simp add: interpreter_init_def)
qed

text \<open>
  C28: PRINT shows a number that is an integer of at most six digits exactly as
  \<open>"%d"\<close> would: no decimal point, no exponent, a minus sign for negatives.
\<close>

theorem print_number_as_integer:
  assumes "\<not> is_string v" "number v = of_int i" "\<bar>i\<bar> < 10 ^ 6"
  shows "events (print_value it v) = events it @ [Print (int_to_string i)]"
  using assms format_g_integer [OF assms(3)] by (simp add: print_value_def basic_print_def)

lemma print_number_as_integer_witness:
  "events (print_value interpreter_init (num_value (-120))) = [Print (int_to_string (-120))]"
  using print_number_as_integer [of "num_value (-120)" "-120" interpreter_init]
  by (simp add: num_value_def interpreter_init_def)

text \<open>
  C26: DRAW rasterises a whole line: with an editor attached, \<open>draw_line\<close> plots a
  non-empty sequence of cells from the scaled start point to the scaled end point
  (the Bresenham loop always reaches the end point within its fuel).
\<close>

theorem draw_line_endpoints:
  "editor it = Some ed \<Longrightarrow>
   \<exists>pts. events (draw_line it x1 y1 x2 y2) = events it @ map (\<lambda>(x, y). Plot_char x y (CHR ''*'')) pts \<and>
          pts \<noteq> [] \<and> hd pts = ((x1 * cols ed) sdiv 320, (y1 * rows ed) sdiv 200) \<and>
          last pts = ((x2 * cols ed) sdiv 320, (y2 * rows ed) sdiv 200)"
  by (rule draw_line_plots)

theorem draw_line_endpoints_witness:
  "\<exists>pts. events (draw_line (interpreter_init\<lparr>editor := Some \<lparr>cols = 80, rows = 24\<rparr>\<rparr>) 0 0 40 25) =
          map (\<lambda>(x, y). Plot_char x y (CHR ''*'')) pts \<and> pts \<noteq> [] \<and> hd pts = (0, 0) \<and> last pts = (10, 3)"
proof -
  have "((0::int) * 80) sdiv 320 = 0" "((0::int) * 24) sdiv 200 = 0"
       "((40::int) * 80) sdiv 320 = 10" "((25::int) * 24) sdiv 200 = 3" by (simp_all add: signed_divide_int_def)
  then show ?thesis
    using draw_line_endpoints [of "interpreter_init\<lparr>editor := Some \<lparr>cols = 80, rows = 24\<rparr>\<rparr>"
        "\<lparr>cols = 80, rows = 24\<rparr>" 0 0 40 25]
    by (simp add: interpreter_init_def)
qed

text \<open>
  C20: a true IF ... THEN runs the rest of the line, and that includes the ELSE part:
  the ELSE token is skipped as an unknown statement, so both branches print.
\<close>

theorem if_true_runs_else:
  "events (interpreter_execute_line it ''IF 1 THEN PRINT \"Y\" ELSE PRINT \"N\"'') =
     events it @ [Print ''Y'', Print [LF], Print ''N'', Print [LF]] \<and>
   events (interpreter_execute_line it ''IF 0 THEN PRINT \"Y\" ELSE PRINT \"N\"'') =
     events it @ [Print ''N'', Print [LF]]"
proof (intro conjI)
  show "events (interpreter_execute_line it ''IF 1 THEN PRINT \"Y\" ELSE PRINT \"N\"'') =
     events it @ [Print ''Y'', Print [LF], Print ''N'', Print [LF]]"
    apply code_simp
    apply simp
    done
  show "events (interpreter_execute_line it ''IF 0 THEN PRINT \"Y\" ELSE PRINT \"N\"'') =
     events it @ [Print ''N'', Print [LF]]"
    apply code_simp
    apply simp
    done
qed

text \<open>
  C21: GOTO does not end its line: after \<open>GOTO 10: PRINT "X"\<close> on a program with a
  line 10 the current line is 10 and X has been printed as well.
\<close>

theorem goto_continues_line:
  "program_find_line (program it) 10 \<noteq> None \<Longrightarrow>
   current_line (interpreter_execute_line it ''GOTO 10: PRINT \"X\"'') = Some 10 \<and>
   events (interpreter_execute_line it ''GOTO 10: PRINT \"X\"'') = events it @ [Print ''X'', Print [LF]]"
proof -
  assume f: "program_find_line (program it) 10 \<noteq> None"
  then obtain t where t: "program_find_line (program it) 10 = Some t" by blast
  have n: "line_number t = 10" using program_find_line_number [OF t] by simp
  show ?thesis
  proof
    show "current_line (interpreter_execute_line it ''GOTO 10: PRINT \"X\"'') = Some 10"
      apply code_simp
      apply (simp add: t n)
      apply code_simp
      apply (simp)?
      done
    show "events (interpreter_execute_line it ''GOTO 10: PRINT \"X\"'') = events it @ [Print ''X'', Print [LF]]"
      apply code_simp
      apply (simp add: t n)
      apply code_simp
      apply (simp)?
      done
  qed
qed

theorem goto_continues_line_witness:
  "current_line (interpreter_execute_line (interpreter_init\<lparr>program := [\<lparr>line_number = 10, line_text = ''END''\<rparr>]\<rparr>)
     ''GOTO 10: PRINT \"X\"'') = Some 10"
  using goto_continues_line [of "interpreter_init\<lparr>program := [\<lparr>line_number = 10, line_text = ''END''\<rparr>]\<rparr>"]
  by (simp add: interpreter_init_def)

end
