(* ===== verification/Run.thy ===== *)
theory Run
  imports Exec
begin

text \<open>
  The run loop \<open>interpreter_run\<close> of \<open>src/interpreter.c\<close>. One round of its
  \<open>while (interp->running && interp->current_line)\<close> loop is \<open>run_body\<close>: the
  break check, the execution of the current line, the error check, and the jump
  detection, which advances to the successor the line had before it ran unless the
  successor of the (possibly moved) current line differs from it. The loop itself is
  \<open>run_loop\<close>, a \<open>partial_function (option)\<close>: a program may loop forever, and
  then the value is \<open>None\<close>. \<open>run_fuel\<close> is the same loop bounded by a number of
  rounds; \<open>run_fuel_adequate\<close> shows the two agree. The flag
  \<open>break_requested\<close> is set by the SIGINT handler of \<open>src/cfbasic.c\<close> between
  any two rounds; \<open>run_step\<close> is the step relation that adds this interrupt to the
  rounds of the loop.
\<close>

definition current_text :: "interp \<Rightarrow> string" where
  "current_text it =
     (case current_line it of
        None \<Rightarrow> []
      | Some n \<Rightarrow> (case program_find_line (program it) n of Some l \<Rightarrow> line_text l | None \<Rightarrow> []))"

definition run_body :: "interp \<Rightarrow> interp" where
  "run_body it =
     (if break_requested it then
        (basic_print it (LF # ''? BREAK'' @ [LF]))\<lparr>break_requested := False, running := False\<rparr>
      else
        (let cur = the (current_line it);
             next_line = line_successor (program it) cur;
             it1 = interpreter_execute_line it (current_text it)
         in if error_occurred it1 then
              (basic_print it1 (''ERROR IN LINE '' @ int_to_string (the (current_line it1)) @ [LF]))
                \<lparr>running := False, error_occurred := False\<rparr>
            else if running it1 \<and> current_line it1 \<noteq> None \<and>
                    line_successor (program it1) (the (current_line it1)) = next_line
            then it1\<lparr>current_line := map_option line_number next_line\<rparr>
            else it1))"

definition loop_cond :: "interp \<Rightarrow> bool" where
  "loop_cond it \<longleftrightarrow> running it \<and> current_line it \<noteq> None"

partial_function (option) run_loop :: "interp \<Rightarrow> interp option" where
  "run_loop it = (if loop_cond it then run_loop (run_body it) else Some it)"

definition run_start :: "interp \<Rightarrow> interp" where
  "run_start it = it\<lparr>running := True, current_line := Some (line_number (hd (program it)))\<rparr>"

definition interpreter_run :: "interp \<Rightarrow> interp option" where
  "interpreter_run it =
     (if program it = [] then Some it
      else map_option (\<lambda>it'. it'\<lparr>running := False\<rparr>) (run_loop (run_start it)))"

text \<open>The loop with a bound on the number of rounds.\<close>

fun run_fuel :: "nat \<Rightarrow> interp \<Rightarrow> interp option" where
  "run_fuel n it =
     (if \<not> loop_cond it then Some it else if n = 0 then None else run_fuel (n - 1) (run_body it))"

declare run_fuel.simps [simp del]

lemma run_fuel_stop [simp]: "\<not> loop_cond it \<Longrightarrow> run_fuel n it = Some it"
  by (simp add: run_fuel.simps)

lemma run_fuel_Suc: "loop_cond it \<Longrightarrow> run_fuel (Suc n) it = run_fuel n (run_body it)"
  by (simp add: run_fuel.simps)

lemma run_fuel_0: "loop_cond it \<Longrightarrow> run_fuel 0 it = None"
  by (simp add: run_fuel.simps)

lemma run_loop_stop: "\<not> loop_cond it \<Longrightarrow> run_loop it = Some it"
  by (simp add: run_loop.simps)

lemma run_loop_step: "loop_cond it \<Longrightarrow> run_loop it = run_loop (run_body it)"
  by (subst run_loop.simps) simp

lemma run_fuel_sound: "run_fuel n it = Some it' \<Longrightarrow> run_loop it = Some it'"
proof (induction n arbitrary: it)
  case 0
  then show ?case by (cases "loop_cond it") (simp_all add: run_fuel_0 run_loop_stop)
next
  case (Suc n)
  then show ?case by (cases "loop_cond it") (simp_all add: run_fuel_Suc run_loop_step run_loop_stop)
qed

lemma run_fuel_complete:
  assumes ret: "run_loop it = Some it'"
  shows "\<exists>n. run_fuel n it = Some it'"
proof (rule run_loop.raw_induct [where P = "\<lambda>it it'. \<exists>n. run_fuel n it = Some it'", OF _ ret])
  fix f it it'
  assume IH: "\<And>it it'. f it = Some it' \<Longrightarrow> \<exists>n. run_fuel n it = Some it'"
    and eq: "(if loop_cond it then f (run_body it) else Some it) = Some it'"
  show "\<exists>n. run_fuel n it = Some it'"
  proof (cases "loop_cond it")
    case True
    then obtain n where "run_fuel n (run_body it) = Some it'" using IH eq by auto
    then have "run_fuel (Suc n) it = Some it'" using True by (simp add: run_fuel_Suc)
    then show ?thesis by blast
  next
    case False
    then show ?thesis using eq by auto
  qed
qed

section \<open>Interrupts: the step relation of a run\<close>

text \<open>
  A step of a run is a round of the loop, or the SIGINT handler setting
  \<open>break_requested\<close> while the loop runs.
\<close>

inductive run_step :: "interp \<Rightarrow> interp \<Rightarrow> bool" where
  round: "loop_cond it \<Longrightarrow> run_step it (run_body it)"
| interrupt: "loop_cond it \<Longrightarrow> run_step it (it\<lparr>break_requested := True\<rparr>)"

inductive_cases run_stepE: "run_step it it'"

text \<open>The invariant of a run: a sorted program and a well-formed executor state.\<close>

definition run_inv :: "interp \<Rightarrow> bool" where
  "run_inv it \<longleftrightarrow> program_ok (program it) \<and> exec_inv it"

lemma line_successor_mem: "line_successor prog n = Some l \<Longrightarrow> l \<in> set prog"
  by (induction prog) (auto split: if_splits list.splits)

lemma program_find_line_mem:
  "program_ok prog \<Longrightarrow> l \<in> set prog \<Longrightarrow> program_find_line prog (line_number l) = Some l"
  by (induction prog) (auto simp: program_ok_def)

lemma cursor_ok_successor:
  "program_ok prog \<Longrightarrow> cursor_ok prog (map_option line_number (line_successor prog n))"
  using line_successor_mem [of prog n] program_find_line_mem [of prog]
  by (cases "line_successor prog n") (auto simp: cursor_ok_def)

lemma run_body_inv: "run_inv it \<Longrightarrow> run_inv (run_body it) \<and> program (run_body it) = program it"
proof -
  assume inv: "run_inv it"
  let ?it1 = "interpreter_execute_line it (current_text it)"
  have s: "program ?it1 = program it" "exec_inv ?it1"
    using execute_line_ok [of it "current_text it"] inv by (auto simp: stmt_ok_def run_inv_def)
  have ok: "program_ok (program it)" using inv by (simp add: run_inv_def)
  have "cursor_ok (program it) (map_option line_number (line_successor (program it) (the (current_line it))))"
    using ok by (rule cursor_ok_successor)
  then show ?thesis using inv s ok
    by (auto simp: run_body_def Let_def run_inv_def exec_inv_def)
qed

lemma run_step_inv: "run_step it it' \<Longrightarrow> run_inv it \<Longrightarrow> run_inv it' \<and> program it' = program it"
proof (induction rule: run_step.induct)
  case (round it)
  then show ?case using run_body_inv by blast
next
  case (interrupt it)
  then show ?case by (simp add: run_inv_def exec_inv_def)
qed

lemma interpreter_run_by_fuel:
  "program it \<noteq> [] \<Longrightarrow> run_fuel n (run_start it) = Some r \<Longrightarrow> interpreter_run it = Some (r\<lparr>running := False\<rparr>)"
  by (simp add: interpreter_run_def run_fuel_sound)

lemma run_fuel_none_cycle:
  assumes "loop_cond a" "loop_cond b" "run_body a = b" "run_body b = a"
  shows "run_fuel n a = None \<and> run_fuel n b = None"
  using assms by (induction n) (simp_all add: run_fuel_0 run_fuel_Suc)

section \<open>Properties of the run loop\<close>

text \<open>
  The fuel-bounded loop is adequate for the partial function: the run loop
  returns a state exactly when some number of rounds reaches it.
\<close>

theorem run_fuel_adequate: "run_loop it = Some it' \<longleftrightarrow> (\<exists>n. run_fuel n it = Some it')"
  using run_fuel_sound run_fuel_complete by blast

text \<open>
  C3: every state a run reaches, rounds and interrupts interleaved in any order,
  keeps the program it started with, sorted, and a well-formed executor state
  (distinct variable names, the current line none or a line of the program).
\<close>

theorem run_reachable_invariant:
  assumes "run_step\<^sup>*\<^sup>* it it'" and "run_inv it"
  shows "run_inv it' \<and> program it' = program it"
  using assms by (induction rule: rtranclp_induct) (auto dest: run_step_inv)

theorem run_reachable_invariant_witness:
  "run_inv (run_body (interpreter_init\<lparr>program := [\<lparr>line_number = 10, line_text = ''END''\<rparr>],
                        running := True, current_line := Some 10\<rparr>))"
proof -
  let ?s = "interpreter_init\<lparr>program := [\<lparr>line_number = 10, line_text = ''END''\<rparr>],
              running := True, current_line := Some 10\<rparr>"
  have "run_step ?s (run_body ?s)" by (rule run_step.round) (simp add: loop_cond_def interpreter_init_def)
  moreover have "run_inv ?s"
    by (simp add: run_inv_def exec_inv_def cursor_ok_def program_ok_def interpreter_init_def)
  ultimately show ?thesis using run_reachable_invariant [of ?s "run_body ?s"] by blast
qed

text \<open>
  C22: an interrupt is served at the next line boundary: once the handler has set
  \<open>break_requested\<close> in a running loop, the run ends with the break notice, the flag
  cleared, and no error.
\<close>

theorem interrupt_halts_run:
  "loop_cond it \<Longrightarrow>
   run_loop (it\<lparr>break_requested := True\<rparr>) =
     Some ((basic_print it (LF # ''? BREAK'' @ [LF]))\<lparr>break_requested := False, running := False\<rparr>)"
  by (simp add: run_loop_step loop_cond_def run_body_def basic_print_def run_loop_stop)

theorem interrupt_halts_run_witness:
  "run_loop (interpreter_init\<lparr>running := True, current_line := Some 10, break_requested := True\<rparr>) =
     Some ((basic_print (interpreter_init\<lparr>running := True, current_line := Some 10\<rparr>) (LF # ''? BREAK'' @ [LF]))
             \<lparr>break_requested := False, running := False\<rparr>)"
  using interrupt_halts_run [of "interpreter_init\<lparr>running := True, current_line := Some 10\<rparr>"]
  by (simp add: loop_cond_def)

text \<open>
  C1: end to end, the program \<open>10 PRINT "HI"\<close> / \<open>20 END\<close> run from its first line
  prints \<open>HI\<close> and a newline and halts with no error signalled.
\<close>

theorem run_hi_program:
  "\<exists>r. interpreter_run (interpreter_init\<lparr>program :=
          [\<lparr>line_number = 10, line_text = ''PRINT \"HI\"''\<rparr>, \<lparr>line_number = 20, line_text = ''END''\<rparr>]\<rparr>) = Some r \<and>
        printed (events r) = ''HI'' @ [LF] \<and> \<not> error_occurred r \<and> \<not> running r"
proof -
  let ?p = "interpreter_init\<lparr>program :=
     [\<lparr>line_number = 10, line_text = ''PRINT \"HI\"''\<rparr>, \<lparr>line_number = 20, line_text = ''END''\<rparr>]\<rparr>"
  have "case run_fuel 3 (run_start ?p) of None \<Rightarrow> False
        | Some r \<Rightarrow> printed (events r) = ''HI'' @ [LF] \<and> \<not> error_occurred r" by code_simp
  then obtain r where "run_fuel 3 (run_start ?p) = Some r" "printed (events r) = ''HI'' @ [LF]"
      "\<not> error_occurred r" by (auto split: option.splits)
  then show ?thesis using interpreter_run_by_fuel [of ?p 3 r] by simp
qed

lemma goto_50_missing:
  "program_find_line (program it) 50 = None \<Longrightarrow>
   interpreter_execute_line it ''GOTO 50'' =
     it\<lparr>events := events it @ [Stderr (''?LINE NOT FOUND ERROR'' @ [LF])], error_occurred := True\<rparr>"
  apply code_simp
  apply (simp add: report_error_def exec_statements_end rem_def)
  done

text \<open>
  C14: GOTO to an absent line halts the run: whatever the program and the state,
  when the current line is \<open>GOTO 50\<close> and line 50 does not exist, the run loop
  reports "LINE NOT FOUND", prints "ERROR IN LINE" with the current line number,
  clears the error flag and stops on that line, running nothing after it.
\<close>

theorem run_goto_missing_halts:
  assumes "loop_cond it" "\<not> break_requested it" "current_line it = Some c"
    "current_text it = ''GOTO 50''" "program_find_line (program it) 50 = None"
  shows "\<exists>r. run_loop it = Some r \<and>
           events r = events it @ [Stderr (''?LINE NOT FOUND ERROR'' @ [LF]),
                                   Print (''ERROR IN LINE '' @ int_to_string c @ [LF])] \<and>
           \<not> error_occurred r \<and> \<not> running r \<and> program r = program it \<and> current_line r = Some c"
proof -
  have "run_body it =
          (basic_print (it\<lparr>events := events it @ [Stderr (''?LINE NOT FOUND ERROR'' @ [LF])], error_occurred := True\<rparr>)
             (''ERROR IN LINE '' @ int_to_string c @ [LF]))\<lparr>running := False, error_occurred := False\<rparr>"
    using assms(2-5) goto_50_missing [OF assms(5)] by (simp add: run_body_def)
  then show ?thesis using assms(1,3)
    by (simp add: run_loop_step run_loop_stop loop_cond_def basic_print_def)
qed

lemma run_goto_missing_halts_witness:
  "\<exists>r. run_loop (run_start (interpreter_init\<lparr>program :=
          [\<lparr>line_number = 10, line_text = ''GOTO 50''\<rparr>, \<lparr>line_number = 20, line_text = ''PRINT \"X\"''\<rparr>]\<rparr>)) = Some r \<and>
        events r = [Stderr (''?LINE NOT FOUND ERROR'' @ [LF]), Print (''ERROR IN LINE '' @ int_to_string 10 @ [LF])]"
proof -
  let ?p = "run_start (interpreter_init\<lparr>program :=
          [\<lparr>line_number = 10, line_text = ''GOTO 50''\<rparr>, \<lparr>line_number = 20, line_text = ''PRINT \"X\"''\<rparr>]\<rparr>)"
  have t: "current_text ?p = ''GOTO 50''"
    by (simp add: current_text_def run_start_def)
  have f: "program_find_line (program ?p) 50 = None"
    by code_simp
  have l: "loop_cond ?p" "\<not> break_requested ?p" "current_line ?p = Some 10"
    by (simp_all add: run_start_def loop_cond_def interpreter_init_def)
  have "events ?p = []"
    by (simp add: run_start_def interpreter_init_def)
  then show ?thesis
    using run_goto_missing_halts [OF l t f] by auto
qed

text \<open>
  C17: the jump detection compares successors, so a jump to the line itself is taken
  for a fall-through: \<open>10 GOTO 10\<close> / \<open>20 PRINT "X"\<close> does not loop on line 10 but
  goes on to line 20, prints X and ends.
\<close>

theorem run_self_jump_falls_through:
  "\<exists>r. interpreter_run (interpreter_init\<lparr>program :=
          [\<lparr>line_number = 10, line_text = ''GOTO 10''\<rparr>, \<lparr>line_number = 20, line_text = ''PRINT \"X\"''\<rparr>]\<rparr>) = Some r \<and>
        printed (events r) = ''X'' @ [LF] \<and> \<not> error_occurred r"
proof -
  let ?p = "interpreter_init\<lparr>program :=
     [\<lparr>line_number = 10, line_text = ''GOTO 10''\<rparr>, \<lparr>line_number = 20, line_text = ''PRINT \"X\"''\<rparr>]\<rparr>"
  have "case run_fuel 3 (run_start ?p) of None \<Rightarrow> False
        | Some r \<Rightarrow> printed (events r) = ''X'' @ [LF] \<and> \<not> error_occurred r" by code_simp
  then obtain r where "run_fuel 3 (run_start ?p) = Some r" "printed (events r) = ''X'' @ [LF]"
      "\<not> error_occurred r" by (auto split: option.splits)
  then show ?thesis using interpreter_run_by_fuel [of ?p 3 r] by simp
qed

text \<open>
  C23: a run need not end: \<open>10 GOTO 20\<close> / \<open>20 GOTO 10\<close> alternates between its two
  lines forever, and \<open>interpreter_run\<close> never returns.
\<close>

theorem run_jump_cycle_diverges:
  "interpreter_run (interpreter_init\<lparr>program :=
      [\<lparr>line_number = 10, line_text = ''GOTO 20''\<rparr>, \<lparr>line_number = 20, line_text = ''GOTO 10''\<rparr>]\<rparr>) = None"
proof -
  let ?p = "interpreter_init\<lparr>program :=
     [\<lparr>line_number = 10, line_text = ''GOTO 20''\<rparr>, \<lparr>line_number = 20, line_text = ''GOTO 10''\<rparr>]\<rparr>"
  let ?a = "run_start ?p" and ?b = "(run_start ?p)\<lparr>current_line := Some 20\<rparr>"
  have "run_body ?a = ?b" "run_body ?b = ?a" by code_simp+
  moreover have "loop_cond ?a" "loop_cond ?b" by (simp_all add: loop_cond_def run_start_def)
  ultimately have "run_fuel n ?a = None" for n using run_fuel_none_cycle by blast
  then have "run_loop ?a = None" using run_fuel_complete by (cases "run_loop ?a") force+
  then show ?thesis by (simp add: interpreter_run_def interpreter_init_def)
qed

text \<open>
  C18: the error flag set by a failed GOTO in direct mode is not cleared: a later RUN
  of the program \<open>10 PRINT "HI"\<close> / \<open>20 END\<close> stops after its first line with
  "ERROR IN LINE 10", although that line ran without error.
\<close>

theorem direct_mode_error_leaks:
  "\<exists>r. interpreter_run (interpreter_execute_line (interpreter_init\<lparr>program :=
          [\<lparr>line_number = 10, line_text = ''PRINT \"HI\"''\<rparr>, \<lparr>line_number = 20, line_text = ''END''\<rparr>]\<rparr>)
          ''GOTO 50'') = Some r \<and>
        printed (events r) = ''HI'' @ [LF] @ ''ERROR IN LINE 10'' @ [LF]"
proof -
  let ?p = "interpreter_execute_line (interpreter_init\<lparr>program :=
          [\<lparr>line_number = 10, line_text = ''PRINT \"HI\"''\<rparr>, \<lparr>line_number = 20, line_text = ''END''\<rparr>]\<rparr>) ''GOTO 50''"
  have ne: "program ?p \<noteq> []" by code_simp
  have "case run_fuel 3 (run_start ?p) of None \<Rightarrow> False
        | Some r \<Rightarrow> printed (events r) = ''HI'' @ [LF] @ ''ERROR IN LINE 10'' @ [LF]" by code_simp
  then obtain r where "run_fuel 3 (run_start ?p) = Some r"
      "printed (events r) = ''HI'' @ [LF] @ ''ERROR IN LINE 10'' @ [LF]" by (auto split: option.splits)
  then show ?thesis using interpreter_run_by_fuel [OF ne, of 3 r] by simp
qed

text \<open>
  C19: the error message names the line the cursor is on after the failing line, not
  the line that failed: in \<open>10 GOTO 20: GOTO 99\<close> / \<open>20 END\<close> the second GOTO
  fails on line 10, and the run reports "ERROR IN LINE 20".
\<close>

theorem run_error_names_jump_target:
  "\<exists>r. interpreter_run (interpreter_init\<lparr>program :=
          [\<lparr>line_number = 10, line_text = ''GOTO 20: GOTO 99''\<rparr>, \<lparr>line_number = 20, line_text = ''END''\<rparr>]\<rparr>) = Some r \<and>
        printed (events r) = ''ERROR IN LINE 20'' @ [LF]"
proof -
  let ?p = "interpreter_init\<lparr>program :=
     [\<lparr>line_number = 10, line_text = ''GOTO 20: GOTO 99''\<rparr>, \<lparr>line_number = 20, line_text = ''END''\<rparr>]\<rparr>"
  have "case run_fuel 3 (run_start ?p) of None \<Rightarrow> False
        | Some r \<Rightarrow> printed (events r) = ''ERROR IN LINE 20'' @ [LF]" by code_simp
  then obtain r where "run_fuel 3 (run_start ?p) = Some r" "printed (events r) = ''ERROR IN LINE 20'' @ [LF]"
    by (auto split: option.splits)
  then show ?thesis using interpreter_run_by_fuel [of ?p 3 r] by simp
qed

end
