(* ===== verification/Editor.thy ===== *)
theory Editor
  imports Exec
begin

text \<open>
  The screen editor of \<open>src/editor.c\<close>: the \<open>Editor\<close> struct of \<open>editor.h\<close> as the
  record \<open>editor\<close>, an extension of the two fields \<open>editor_dims\<close> that the
  interpreter reads, with the cursor and the screen buffer (\<open>rows * cols\<close> bytes,
  row-major). Each function returns the new editor and the bytes it writes to the
  terminal (\<open>printf\<close>, \<open>putchar\<close>). \<open>memset\<close> and \<open>memmove\<close> on the buffer are
  \<open>mem_set\<close> and \<open>mem_move\<close> on the list. The keyboard is the list of bytes
  \<open>read\<close> returns; its end is end of file. A read of the buffer outside its bounds
  or a write outside them (undefined behaviour in C) is the outcome \<open>Read_overrun\<close>.
  Terminal raw mode is the theory \<open>Terminal\<close>.
\<close>

unbundle bit_operations_syntax

record editor = editor_dims +
  cursor_row :: int
  cursor_col :: int
  buffer :: "char list"

definition mem_set :: "'a list \<Rightarrow> nat \<Rightarrow> nat \<Rightarrow> 'a \<Rightarrow> 'a list" where
  "mem_set b off n x = take off b @ replicate n x @ drop (off + n) b"

definition mem_move :: "'a list \<Rightarrow> nat \<Rightarrow> nat \<Rightarrow> nat \<Rightarrow> 'a list" where
  "mem_move b dst src n = take dst b @ take n (drop src b) @ drop (dst + n) b"

definition c_iscntrl :: "char \<Rightarrow> bool" where
  "c_iscntrl c = (of_char c < (32::nat) \<or> of_char c = (127::nat))"

definition cursor_escape :: "int \<Rightarrow> int \<Rightarrow> string" where
  "cursor_escape r c = ESC # CHR ''['' # int_to_string r @ CHR '';'' # int_to_string c @ ''H''"

text \<open>\<open>get_window_size\<close>: the \<open>TIOCGWINSZ\<close> answer (rows, columns), \<open>None\<close> when
  \<open>ioctl\<close> fails.\<close>

definition get_window_size :: "(nat \<times> nat) option \<Rightarrow> int \<times> int" where
  "get_window_size ws =
     (case ws of None \<Rightarrow> (24, 80)
      | Some (r, c) \<Rightarrow> if c = 0 then (24, 80) else (int r, int c))"

definition editor_init :: "(nat \<times> nat) option \<Rightarrow> editor" where
  "editor_init ws =
     (let (r, c) = get_window_size ws in
      \<lparr>cols = c, rows = r, cursor_row = 0, cursor_col = 0,
       buffer = replicate (nat (r * c)) (CHR '' '')\<rparr>)"

text \<open>\<open>editor_free\<close>: the buffer is released and its pointer set to \<open>NULL\<close>, the
  empty buffer here, on which every access is out of bounds.\<close>

definition editor_free :: "editor \<Rightarrow> editor" where
  "editor_free ed = ed\<lparr>buffer := []\<rparr>"

definition editor_clear_screen :: "editor \<Rightarrow> editor \<times> string" where
  "editor_clear_screen ed =
     (ed\<lparr>buffer := mem_set (buffer ed) 0 (nat (rows ed * cols ed)) (CHR '' ''),
         cursor_row := 0, cursor_col := 0\<rparr>,
      ESC # ''[2J'' @ ESC # ''[H'')"

definition editor_scroll :: "editor \<Rightarrow> editor \<times> string" where
  "editor_scroll ed =
     (let n = nat ((rows ed - 1) * cols ed); c = nat (cols ed) in
      (ed\<lparr>buffer := mem_set (mem_move (buffer ed) 0 c n) n c (CHR '' ''),
          cursor_row := max 0 (cursor_row ed - 1)\<rparr>,
       ESC # ''[S''))"

definition editor_refresh :: "editor \<Rightarrow> string" where
  "editor_refresh ed =
     ESC # ''[H'' @
     concat (map (\<lambda>r. take (nat (cols ed)) (drop (nat (r * cols ed)) (buffer ed)) @
                      (if r < rows ed - 1 then [CR, LF] else []))
             [0..rows ed - 1]) @
     cursor_escape (cursor_row ed + 1) (cursor_col ed + 1)"

text \<open>The bottom check that \<open>editor_print\<close> and \<open>editor_read_line\<close> repeat:
  \<open>if (ed->cursor_row >= ed->rows) editor_scroll(ed);\<close>\<close>

definition scroll_bottom :: "editor \<Rightarrow> editor \<times> string" where
  "scroll_bottom ed = (if rows ed \<le> cursor_row ed then editor_scroll ed else (ed, []))"

text \<open>One byte of \<open>editor_print\<close>, in the three blocks of the loop body: the
  branch on the byte, the wrap at the right margin, the scroll at the bottom.\<close>

definition print_branch :: "editor \<Rightarrow> char \<Rightarrow> editor \<times> string" where
  "print_branch ed ch =
     (if ch = LF then (ed\<lparr>cursor_col := 0, cursor_row := cursor_row ed + 1\<rparr>, [CR, LF])
      else if ch = CR then (ed\<lparr>cursor_col := 0\<rparr>, [CR])
      else if ch = TAB then
        (let nc = (cursor_col ed + 8) AND NOT 7 in
         (ed\<lparr>cursor_col := nc\<rparr>, replicate (nat (nc - cursor_col ed)) (CHR '' '')))
      else
        (let (e0, o0) = scroll_bottom ed in
         (e0\<lparr>buffer := (buffer e0)[nat (cursor_row e0 * cols e0 + cursor_col e0) := ch],
             cursor_col := cursor_col e0 + 1\<rparr>, o0 @ [ch])))"

definition wrap_margin :: "editor \<Rightarrow> editor \<times> string" where
  "wrap_margin ed =
     (if cols ed \<le> cursor_col ed
      then (ed\<lparr>cursor_col := 0, cursor_row := cursor_row ed + 1\<rparr>, [CR, LF])
      else (ed, []))"

definition print_byte :: "editor \<Rightarrow> char \<Rightarrow> editor \<times> string" where
  "print_byte ed ch =
     (let (ed1, o1) = print_branch ed ch; (ed2, o2) = wrap_margin ed1; (ed3, o3) = scroll_bottom ed2
      in (ed3, o1 @ o2 @ o3))"

fun print_bytes :: "editor \<Rightarrow> string \<Rightarrow> editor \<times> string" where
  "print_bytes ed [] = (ed, [])"
| "print_bytes ed (ch # s) =
     (let (ed1, o1) = print_byte ed ch; (ed2, o2) = print_bytes ed1 s in (ed2, o1 @ o2))"

definition editor_print :: "editor \<Rightarrow> string \<Rightarrow> editor \<times> string" where
  "editor_print ed s =
     (let (ed1, o1) = print_bytes ed (cstr s) in
      (ed1, o1 @ cursor_escape (cursor_row ed1 + 1) (cursor_col ed1 + 1)))"

definition editor_plot :: "editor \<Rightarrow> int \<Rightarrow> int \<Rightarrow> char \<Rightarrow> editor \<times> string" where
  "editor_plot ed x y ch =
     (if x < 0 \<or> cols ed \<le> x \<or> y < 0 \<or> rows ed \<le> y then (ed, [])
      else (ed\<lparr>buffer := (buffer ed)[nat (y * cols ed + x) := ch]\<rparr>,
            cursor_escape (y + 1) (x + 1) @ [ch]))"

text \<open>The \<open>switch (color & 15)\<close> of \<open>editor_set_background_color\<close>, case by case.\<close>

definition ansi_bg_table :: "int list" where
  "ansi_bg_table = [40, 107, 41, 106, 45, 42, 44, 103, 43, 101, 101, 100, 100, 102, 104, 100]"

definition ansi_bg :: "int \<Rightarrow> int" where
  "ansi_bg color = ansi_bg_table ! nat (color AND 15)"

definition editor_set_background_color :: "editor \<Rightarrow> int \<Rightarrow> editor \<times> string" where
  "editor_set_background_color ed color = (ed, ESC # CHR ''['' # int_to_string (ansi_bg color) @ ''m'')"

text \<open>The screen-code conversion of \<open>editor_poke_char\<close>.\<close>

definition screen_code_char :: "u8 \<Rightarrow> char" where
  "screen_code_char v =
     (let n = unat v in
      if 1 \<le> n \<and> n \<le> 26 then char_of (n + 64)
      else if 27 \<le> n \<and> n \<le> 31 then char_of (n + 64)
      else if 32 \<le> n \<and> n \<le> 63 then char_of n
      else if 64 \<le> n \<and> n \<le> 95 then char_of (n + 32)
      else if 96 \<le> n \<and> n \<le> 127 then char_of n
      else CHR ''?'')"

definition editor_poke_char :: "editor \<Rightarrow> int \<Rightarrow> u8 \<Rightarrow> editor \<times> string" where
  "editor_poke_char ed addr v =
     (let off = addr - 1024 in
      if off < 0 \<or> 1000 \<le> off then (ed, [])
      else
        (let r = off div 40; c = off mod 40;
             tr = (r * rows ed) sdiv 25; tc = (c * cols ed) sdiv 40
         in editor_plot ed tc tr (screen_code_char v)))"

text \<open>\<open>editor_read_line\<close>. On Enter the line under the cursor is picked from
  the buffer with its leading and trailing blanks trimmed; \<open>buf_at\<close> is the
  bounds-checked byte access, \<open>None\<close> outside the buffer.\<close>

definition buf_at :: "char list \<Rightarrow> int \<Rightarrow> char option" where
  "buf_at b i = (if 0 \<le> i \<and> i < int (length b) then Some (b ! nat i) else None)"

function trim_front :: "char list \<Rightarrow> int \<Rightarrow> int \<Rightarrow> int option" where
  "trim_front b s e =
     (if s \<le> e then
        (case buf_at b s of None \<Rightarrow> None
         | Some ch \<Rightarrow> if ch = CHR '' '' then trim_front b (s + 1) e else Some s)
      else Some s)"
  by pat_completeness auto
termination by (relation "measure (\<lambda>(b, s, e). nat (e - s + 1))") auto

function trim_back :: "char list \<Rightarrow> int \<Rightarrow> int \<Rightarrow> int option" where
  "trim_back b s e =
     (if s \<le> e then
        (case buf_at b e of None \<Rightarrow> None
         | Some ch \<Rightarrow> if ch = CHR '' '' then trim_back b s (e - 1) else Some e)
      else Some e)"
  by pat_completeness auto
termination by (relation "measure (\<lambda>(b, s, e). nat (e - s + 1))") auto

declare trim_front.simps [simp del] trim_back.simps [simp del]

definition pick_line :: "char list \<Rightarrow> int \<Rightarrow> int \<Rightarrow> string option" where
  "pick_line b start end0 =
     (case trim_front b start end0 of None \<Rightarrow> None
      | Some s \<Rightarrow>
        (case trim_back b s end0 of None \<Rightarrow> None
         | Some e \<Rightarrow> Some (if 0 < e - s + 1 then take (nat (e - s + 1)) (drop (nat s) b) else [])))"

datatype read_outcome = Read_line string | Read_eof | Read_overrun

text \<open>The arrow keys \<open>ESC [ A\<close> .. \<open>ESC [ D\<close>.\<close>

definition arrow_key :: "editor \<Rightarrow> char \<Rightarrow> char \<Rightarrow> editor" where
  "arrow_key ed s0 s1 =
     (if s0 = CHR ''['' then
        (if s1 = CHR ''A'' then (if 0 < cursor_row ed then ed\<lparr>cursor_row := cursor_row ed - 1\<rparr> else ed)
         else if s1 = CHR ''B'' then
           (if cursor_row ed < rows ed - 1 then ed\<lparr>cursor_row := cursor_row ed + 1\<rparr> else ed)
         else if s1 = CHR ''C'' then
           (if cursor_col ed < cols ed - 1 then ed\<lparr>cursor_col := cursor_col ed + 1\<rparr> else ed)
         else if s1 = CHR ''D'' then (if 0 < cursor_col ed then ed\<lparr>cursor_col := cursor_col ed - 1\<rparr> else ed)
         else ed)
      else ed)"

definition enter_key :: "editor \<Rightarrow> read_outcome \<times> editor \<times> string" where
  "enter_key ed =
     (let start = cursor_row ed * cols ed in
      case pick_line (buffer ed) start (start + cols ed - 1) of
        None \<Rightarrow> (Read_overrun, ed, [])
      | Some l \<Rightarrow>
          (let ed1 = ed\<lparr>cursor_row := cursor_row ed + 1, cursor_col := 0\<rparr>;
               (ed2, o2) = scroll_bottom ed1
           in (Read_line l, ed2, [CR, LF] @ o2)))"

text \<open>Backspace writes a blank at the new cursor cell; a cell outside the buffer
  (the cursor one row below the screen) is a write past the heap block, \<open>None\<close>.\<close>

definition backspace_key :: "editor \<Rightarrow> (editor \<times> string) option" where
  "backspace_key ed =
     (if 0 < cursor_col ed then
        (let ed1 = ed\<lparr>cursor_col := cursor_col ed - 1\<rparr>;
             i = cursor_row ed1 * cols ed1 + cursor_col ed1
         in if 0 \<le> i \<and> i < int (length (buffer ed1)) then
              Some (ed1\<lparr>buffer := (buffer ed1)[nat i := CHR '' '']\<rparr>, [CHR 0x08, CHR '' '', CHR 0x08])
            else None)
      else Some (ed, []))"

definition insert_key :: "editor \<Rightarrow> char \<Rightarrow> editor \<times> string" where
  "insert_key ed ch =
     (let (e0, o0) = scroll_bottom ed;
          e1 = e0\<lparr>buffer := (buffer e0)[nat (cursor_row e0 * cols e0 + cursor_col e0) := ch],
                  cursor_col := cursor_col e0 + 1\<rparr>
      in (if cols e1 \<le> cursor_col e1 then e1\<lparr>cursor_col := 0, cursor_row := cursor_row e1 + 1\<rparr> else e1,
          o0 @ [ch]))"

fun read_loop :: "editor \<Rightarrow> string \<Rightarrow> string \<Rightarrow> read_outcome \<times> editor \<times> string \<times> string" where
  "read_loop ed out [] = (Read_eof, ed, out, [])"
| "read_loop ed out (ch # inp) =
     (if ch = CR \<or> ch = LF then
        (let (r, ed1, o1) = enter_key ed in (r, ed1, out @ o1, inp))
      else if ch = CHR 0x7F \<or> ch = CHR 0x08 then
        (case backspace_key ed of
           None \<Rightarrow> (Read_overrun, ed, out, inp)
         | Some (ed1, o1) \<Rightarrow> read_loop ed1 (out @ o1) inp)
      else if ch = ESC then
        (case inp of
           s0 # s1 # inp' \<Rightarrow>
             (let ed1 = arrow_key ed s0 s1 in
              read_loop ed1 (out @ cursor_escape (cursor_row ed1 + 1) (cursor_col ed1 + 1)) inp')
         | _ \<Rightarrow> read_loop ed out [])
      else if c_iscntrl ch then read_loop ed out inp
      else (let (ed1, o1) = insert_key ed ch in read_loop ed1 (out @ o1) inp))"

definition editor_read_line :: "editor \<Rightarrow> string \<Rightarrow> read_outcome \<times> editor \<times> string \<times> string" where
  "editor_read_line ed inp = read_loop ed [] inp"

text \<open>The invariant of an editor between two calls: a non-empty screen, the cursor on
  it, the buffer of \<open>rows * cols\<close> bytes. While a line is typed the cursor may also
  stand at column 0 one row below the screen (\<open>editor_pending\<close>); \<open>buf_segment\<close> and
  \<open>trim_blanks\<close> are the list-level reading of the picked line.\<close>

definition editor_ok :: "editor \<Rightarrow> bool" where
  "editor_ok ed \<longleftrightarrow>
     0 < rows ed \<and> 0 < cols ed \<and> 0 \<le> cursor_row ed \<and> cursor_row ed < rows ed \<and>
     0 \<le> cursor_col ed \<and> cursor_col ed < cols ed \<and> length (buffer ed) = nat (rows ed * cols ed)"

definition editor_pending :: "editor \<Rightarrow> bool" where
  "editor_pending ed \<longleftrightarrow>
     0 < rows ed \<and> 0 < cols ed \<and> 0 \<le> cursor_row ed \<and> cursor_row ed \<le> rows ed \<and>
     0 \<le> cursor_col ed \<and> cursor_col ed < cols ed \<and> length (buffer ed) = nat (rows ed * cols ed)"

definition buf_segment :: "char list \<Rightarrow> int \<Rightarrow> int \<Rightarrow> char list" where
  "buf_segment b s e = take (nat (e - s + 1)) (drop (nat s) b)"

definition trim_blanks :: "string \<Rightarrow> string" where
  "trim_blanks xs = rev (dropWhile (\<lambda>c. c = CHR '' '') (rev (dropWhile (\<lambda>c. c = CHR '' '') xs)))"

section \<open>Lemmas\<close>


lemma editor_ok_pending: "editor_ok ed \<Longrightarrow> editor_pending ed"
  by (simp add: editor_ok_def editor_pending_def)

lemma tab_stop: "(x::int) AND NOT 7 = x - x mod 8"
proof -
  have m: "(7::int) = mask 3" by (simp add: mask_eq_exp_minus_1)
  have "x AND NOT 7 = push_bit 3 (drop_bit 3 x)"
    unfolding m by (rule bit_eqI) (auto simp: bit_simps)
  then show ?thesis by (simp add: push_bit_eq_mult drop_bit_eq_div minus_mod_eq_mult_div)
qed

lemma length_mem_set [simp]: "off + n \<le> length b \<Longrightarrow> length (mem_set b off n x) = length b"
  by (simp add: mem_set_def)

lemma length_mem_move [simp]:
  "dst + n \<le> length b \<Longrightarrow> src + n \<le> length b \<Longrightarrow> length (mem_move b dst src n) = length b"
  by (simp add: mem_move_def)

lemma editor_scroll_fields [simp]:
  "rows (fst (editor_scroll ed)) = rows ed" "cols (fst (editor_scroll ed)) = cols ed"
  "cursor_col (fst (editor_scroll ed)) = cursor_col ed"
  "cursor_row (fst (editor_scroll ed)) = max 0 (cursor_row ed - 1)"
  by (simp_all add: editor_scroll_def Let_def)

lemma editor_scroll_length [simp]:
  assumes "0 < rows ed" "0 < cols ed" "length (buffer ed) = nat (rows ed * cols ed)"
  shows "length (buffer (fst (editor_scroll ed))) = length (buffer ed)"
proof -
  have "nat ((rows ed - 1) * cols ed) + nat (cols ed) = nat (rows ed * cols ed)"
    using assms by (simp add: nat_add_distrib [symmetric] algebra_simps)
  then show ?thesis using assms by (simp add: editor_scroll_def Let_def)
qed

lemma scroll_bottom_ok: "editor_pending ed \<Longrightarrow> editor_ok (fst (scroll_bottom ed))"
  by (auto simp: scroll_bottom_def editor_ok_def editor_pending_def)

lemma scroll_bottom_id: "cursor_row ed < rows ed \<Longrightarrow> scroll_bottom ed = (ed, [])"
  by (simp add: scroll_bottom_def)

lemma wrap_margin_pending:
  assumes "0 < rows ed" "0 < cols ed" "0 \<le> cursor_row ed" "cursor_row ed \<le> rows ed"
    "0 \<le> cursor_col ed" "cols ed \<le> cursor_col ed \<Longrightarrow> cursor_row ed < rows ed"
    "length (buffer ed) = nat (rows ed * cols ed)"
  shows "editor_pending (fst (wrap_margin ed))"
  using assms by (auto simp: wrap_margin_def editor_pending_def)

lemma print_branch_margin:
  fixes ch :: char
  assumes "editor_ok ed"
  defines "e \<equiv> fst (print_branch ed ch)"
  shows "0 < rows e \<and> 0 < cols e \<and> 0 \<le> cursor_row e \<and> cursor_row e \<le> rows e \<and>
    0 \<le> cursor_col e \<and> (cols e \<le> cursor_col e \<longrightarrow> cursor_row e < rows e) \<and>
    length (buffer e) = nat (rows e * cols e)"
  using assms(1) unfolding e_def
  by (auto simp: print_branch_def editor_ok_def scroll_bottom_id and_nonnegative_int_iff Let_def)

lemma print_byte_fst:
  "fst (print_byte ed ch) = fst (scroll_bottom (fst (wrap_margin (fst (print_branch ed ch)))))"
  by (simp add: print_byte_def split: prod.split)

lemma print_byte_ok: "editor_ok ed \<Longrightarrow> editor_ok (fst (print_byte ed ch))"
  using print_branch_margin [of ed ch]
  by (simp add: print_byte_fst scroll_bottom_ok wrap_margin_pending)

lemma print_bytes_Cons_fst [simp]:
  "fst (print_bytes ed (ch # s)) = fst (print_bytes (fst (print_byte ed ch)) s)"
  by (simp split: prod.split)

lemma editor_print_fst: "fst (editor_print ed s) = fst (print_bytes ed (cstr s))"
  by (simp add: editor_print_def split: prod.split)

lemma print_bytes_ok: "editor_ok ed \<Longrightarrow> editor_ok (fst (print_bytes ed s))"
  by (induction s arbitrary: ed) (simp_all add: print_byte_ok del: print_bytes.simps(2))

lemma editor_print_ok: "editor_ok ed \<Longrightarrow> editor_ok (fst (editor_print ed s))"
  by (simp add: editor_print_fst print_bytes_ok)

lemma buf_segment_empty: "e < s \<Longrightarrow> buf_segment b s e = []"
  by (simp add: buf_segment_def)

lemma buf_segment_Cons:
  assumes "0 \<le> s" "s \<le> e" "e < int (length b)"
  shows "buf_segment b s e = b ! nat s # buf_segment b (s + 1) e"
proof -
  have "nat (e - s + 1) = Suc (nat (e - (s + 1) + 1))" "nat (s + 1) = Suc (nat s)" using assms by auto
  moreover have "nat s < length b" using assms by auto
  ultimately show ?thesis by (simp add: buf_segment_def Cons_nth_drop_Suc [symmetric])
qed

lemma buf_segment_snoc:
  assumes "0 \<le> s" "s \<le> e" "e < int (length b)"
  shows "buf_segment b s e = buf_segment b s (e - 1) @ [b ! nat e]"
proof -
  have n: "nat (e - s + 1) = Suc (nat (e - 1 - s + 1))" using assms by auto
  have "nat (e - 1 - s + 1) < length (drop (nat s) b)" using assms by auto
  moreover have "nat s + nat (e - 1 - s + 1) = nat e" using assms by auto
  ultimately show ?thesis using assms unfolding buf_segment_def n
    by (simp add: take_Suc_conv_app_nth)
qed

lemma buf_at_in: "0 \<le> i \<Longrightarrow> i < int (length b) \<Longrightarrow> buf_at b i = Some (b ! nat i)"
  by (simp add: buf_at_def)

lemma trim_front_segment:
  "0 \<le> s \<Longrightarrow> e < int (length b) \<Longrightarrow>
   \<exists>s'. trim_front b s e = Some s' \<and> s \<le> s' \<and>
        buf_segment b s' e = dropWhile (\<lambda>c. c = CHR '' '') (buf_segment b s e)"
proof (induction b s e rule: trim_front.induct)
  case (1 b s e)
  show ?case
  proof (cases "s \<le> e")
    case True
    have b: "buf_at b s = Some (b ! nat s)" using 1(2,3) True by (simp add: buf_at_in)
    have seg: "buf_segment b s e = b ! nat s # buf_segment b (s + 1) e"
      using 1(2,3) True by (simp add: buf_segment_Cons)
    show ?thesis
    proof (cases "b ! nat s = CHR '' ''")
      case sp: True
      obtain s' where "trim_front b (s + 1) e = Some s'" "s + 1 \<le> s'"
        "buf_segment b s' e = dropWhile (\<lambda>c. c = CHR '' '') (buf_segment b (s + 1) e)"
        using 1(1) [OF True b sp] 1(2,3) by auto
      then show ?thesis using True b sp seg by (subst trim_front.simps) auto
    next
      case nsp: False
      then show ?thesis using True b seg by (subst trim_front.simps) simp
    qed
  next
    case False
    then show ?thesis by (subst trim_front.simps) (simp add: buf_segment_empty)
  qed
qed

lemma trim_back_segment:
  "0 \<le> s \<Longrightarrow> e < int (length b) \<Longrightarrow>
   \<exists>e'. trim_back b s e = Some e' \<and>
        buf_segment b s e' = rev (dropWhile (\<lambda>c. c = CHR '' '') (rev (buf_segment b s e)))"
proof (induction b s e rule: trim_back.induct)
  case (1 b s e)
  show ?case
  proof (cases "s \<le> e")
    case True
    have b: "buf_at b e = Some (b ! nat e)" using 1(2,3) True by (simp add: buf_at_in)
    have seg: "buf_segment b s e = buf_segment b s (e - 1) @ [b ! nat e]"
      using 1(2,3) True by (simp add: buf_segment_snoc [of s e b])
    show ?thesis
    proof (cases "b ! nat e = CHR '' ''")
      case sp: True
      obtain e' where "trim_back b s (e - 1) = Some e'"
        "buf_segment b s e' = rev (dropWhile (\<lambda>c. c = CHR '' '') (rev (buf_segment b s (e - 1))))"
        using 1(1) [OF True b sp] 1(2,3) by auto
      then show ?thesis using True b sp seg by (subst trim_back.simps) auto
    next
      case nsp: False
      then show ?thesis using True b seg by (subst trim_back.simps) simp
    qed
  next
    case False
    then show ?thesis by (subst trim_back.simps) (simp add: buf_segment_empty)
  qed
qed

lemma pick_line_trim:
  assumes "0 \<le> s" "e < int (length b)"
  shows "pick_line b s e = Some (trim_blanks (buf_segment b s e))"
proof -
  obtain s' where s': "trim_front b s e = Some s'" "s \<le> s'"
    "buf_segment b s' e = dropWhile (\<lambda>c. c = CHR '' '') (buf_segment b s e)"
    using trim_front_segment [OF assms] by blast
  obtain e' where e': "trim_back b s' e = Some e'"
    "buf_segment b s' e' = rev (dropWhile (\<lambda>c. c = CHR '' '') (rev (buf_segment b s' e)))"
    using trim_back_segment [of s' e b] assms s'(2) by auto
  have "(if 0 < e' - s' + 1 then take (nat (e' - s' + 1)) (drop (nat s') b) else []) = buf_segment b s' e'"
    by (simp add: buf_segment_def)
  then show ?thesis using s' e' by (simp add: pick_line_def trim_blanks_def)
qed

lemma insert_key_pending: "editor_pending ed \<Longrightarrow> editor_pending (fst (insert_key ed ch))"
  using scroll_bottom_ok [of ed]
  by (auto simp: insert_key_def editor_ok_def editor_pending_def Let_def split: prod.split)

lemma backspace_key_pending:
  "editor_pending ed \<Longrightarrow> backspace_key ed = Some (ed1, o1) \<Longrightarrow> editor_pending ed1"
  by (auto simp: backspace_key_def editor_pending_def Let_def split: if_splits)

lemma arrow_key_pending: "editor_pending ed \<Longrightarrow> editor_pending (arrow_key ed s0 s1)"
  by (auto simp: arrow_key_def editor_pending_def)

lemma enter_key_row:
  assumes "editor_pending ed" "cursor_row ed < rows ed"
  defines "st \<equiv> cursor_row ed * cols ed"
  shows "fst (enter_key ed) = Read_line (trim_blanks (buf_segment (buffer ed) st (st + cols ed - 1))) \<and>
         editor_ok (fst (snd (enter_key ed)))"
proof -
  have "0 \<le> st" using assms by (simp add: editor_pending_def st_def)
  moreover have "st + cols ed - 1 < int (length (buffer ed))"
  proof -
    have "(cursor_row ed + 1) * cols ed \<le> rows ed * cols ed"
      using assms by (simp add: editor_pending_def mult_right_mono)
    then show ?thesis using assms by (simp add: editor_pending_def st_def algebra_simps)
  qed
  ultimately have p: "pick_line (buffer ed) st (st + cols ed - 1) =
      Some (trim_blanks (buf_segment (buffer ed) st (st + cols ed - 1)))"
    by (rule pick_line_trim)
  have "editor_pending (ed\<lparr>cursor_row := cursor_row ed + 1, cursor_col := 0\<rparr>)"
    using assms by (simp add: editor_pending_def)
  then have "editor_ok (fst (scroll_bottom (ed\<lparr>cursor_row := cursor_row ed + 1, cursor_col := 0\<rparr>)))"
    by (rule scroll_bottom_ok)
  then show ?thesis using p by (simp add: enter_key_def st_def [symmetric] Let_def case_prod_beta)
qed

lemma enter_key_overrun:
  "editor_pending ed \<Longrightarrow> cursor_row ed = rows ed \<Longrightarrow> enter_key ed = (Read_overrun, ed, [])"
  by (simp add: enter_key_def pick_line_def editor_pending_def Let_def buf_at_def
        trim_front.simps [of _ "rows ed * cols ed"])

lemma read_loop_Cons_cases:
  obtains (enter) "ch = CR \<or> ch = LF"
    "read_loop ed out (ch # inp) =
       (fst (enter_key ed), fst (snd (enter_key ed)), out @ snd (snd (enter_key ed)), inp)"
  | (overrun) "read_loop ed out (ch # inp) = (Read_overrun, ed, out, inp)"
  | (step) ed1 out1 inp' where "length inp' \<le> length inp" "editor_pending ed \<Longrightarrow> editor_pending ed1"
    "read_loop ed out (ch # inp) = read_loop ed1 out1 inp'"
proof (cases "ch = CR \<or> ch = LF")
  case True
  then show ?thesis by (intro enter) (simp_all add: case_prod_beta)
next
  case nf: False
  show ?thesis
  proof (cases "ch = CHR 0x7F \<or> ch = CHR 0x08")
    case True
    show ?thesis
    proof (cases "backspace_key ed")
      case None
      then show ?thesis using nf True by (intro overrun) simp
    next
      case (Some p)
      then show ?thesis using nf True backspace_key_pending [of ed "fst p" "snd p"]
        by (intro step [of inp "fst p" "out @ snd p"]) (simp_all add: case_prod_beta)
    qed
  next
    case nb: False
    show ?thesis
    proof (cases "ch = ESC")
      case esc: True
      show ?thesis
      proof (cases inp)
        case Nil
        then show ?thesis using esc nf nb by (intro step [of "[]" ed out]) simp_all
      next
        case (Cons s0 t)
        show ?thesis
        proof (cases t)
          case Nil
          then show ?thesis using Cons esc nf nb by (intro step [of "[]" ed out]) simp_all
        next
          case (Cons s1 inp')
          then show ?thesis using \<open>inp = s0 # t\<close> esc nf nb
            by (intro step [of inp' "arrow_key ed s0 s1"
                "out @ cursor_escape (cursor_row (arrow_key ed s0 s1) + 1) (cursor_col (arrow_key ed s0 s1) + 1)"])
              (simp_all add: arrow_key_pending Let_def)
        qed
      qed
    next
      case ne: False
      show ?thesis
      proof (cases "c_iscntrl ch")
        case True
        then show ?thesis using nf nb ne by (intro step [of inp ed out]) simp_all
      next
        case False
        then show ?thesis using nf nb ne
          by (intro step [of inp "fst (insert_key ed ch)"]) (simp_all add: insert_key_pending case_prod_beta)
      qed
    qed
  qed
qed

lemma read_loop_inv:
  "editor_pending ed \<Longrightarrow> read_loop ed out inp = (r, ed', out', rest) \<Longrightarrow>
   editor_pending ed' \<and> (\<forall>l. r = Read_line l \<longrightarrow> editor_ok ed')"
proof (induction "length inp" arbitrary: ed out inp rule: less_induct)
  case less
  show ?case
  proof (cases inp)
    case Nil
    then show ?thesis using less.prems by auto
  next
    case (Cons ch inp0)
    show ?thesis
    proof (cases rule: read_loop_Cons_cases [where ed = ed and ch = ch and inp = inp0 and out = out])
      case enter
      show ?thesis
      proof (cases "cursor_row ed < rows ed")
        case True
        then show ?thesis using enter less.prems Cons enter_key_row [of ed]
          by (auto simp: editor_ok_pending)
      next
        case False
        then have "cursor_row ed = rows ed" using less.prems(1) by (simp add: editor_pending_def)
        then show ?thesis using enter less.prems Cons enter_key_overrun [of ed] by auto
      qed
    next
      case overrun
      then show ?thesis using less.prems Cons by auto
    next
      case (step ed1 out1 inp')
      then show ?thesis using less.hyps [of inp' ed1 out1] less.prems Cons by simp
    qed
  qed
qed

lemma enter_key_not_eof: "fst (enter_key ed) \<noteq> Read_eof"
  by (simp add: enter_key_def Let_def case_prod_beta split: option.split)

lemma read_loop_rest:
  "read_loop ed out inp = (r, ed', out', rest) \<Longrightarrow>
   (r = Read_eof \<longrightarrow> rest = []) \<and> (r \<noteq> Read_eof \<longrightarrow> length rest < length inp)"
proof (induction "length inp" arbitrary: ed out inp r ed' out' rest rule: less_induct)
  case less
  show ?case
  proof (cases inp)
    case Nil
    then show ?thesis using less.prems by auto
  next
    case (Cons ch inp0)
    show ?thesis
    proof (cases rule: read_loop_Cons_cases [where ed = ed and ch = ch and inp = inp0 and out = out])
      case enter
      then show ?thesis using less.prems Cons enter_key_not_eof [of ed] by auto
    next
      case overrun
      then show ?thesis using less.prems Cons by auto
    next
      case (step ed1 out1 inp')
      then show ?thesis using less.hyps [of inp' ed1 out1] less.prems Cons by fastforce
    qed
  qed
qed

lemma read_line_rest:
  "(r, ed', out', rest) = editor_read_line ed inp \<Longrightarrow>
   (r = Read_eof \<longrightarrow> rest = []) \<and> (r \<noteq> Read_eof \<longrightarrow> length rest < length inp)"
  using read_loop_rest [of ed "[]" inp r ed' out' rest] by (simp add: editor_read_line_def)

lemma c_iscntrl_keys [simp]:
  "c_iscntrl CR" "c_iscntrl LF" "c_iscntrl ESC" "c_iscntrl (CHR 0x7F)" "c_iscntrl (CHR 0x08)"
  by (simp_all add: c_iscntrl_def ESC_def)

lemma read_loop_printable:
  assumes "\<not> c_iscntrl ch"
  shows "read_loop ed out (ch # inp) = read_loop (fst (insert_key ed ch)) (out @ snd (insert_key ed ch)) inp"
proof -
  have "ch \<noteq> CR" "ch \<noteq> LF" "ch \<noteq> ESC" "ch \<noteq> CHR 0x7F" "ch \<noteq> CHR 0x08"
    using assms by auto
  then show ?thesis using assms by (simp add: case_prod_beta)
qed

lemma insert_key_on_screen:
  "cursor_row ed < rows ed \<Longrightarrow>
   cursor_row (fst (insert_key ed ch)) = (if cols ed \<le> cursor_col ed + 1 then cursor_row ed + 1 else cursor_row ed) \<and>
   cursor_col (fst (insert_key ed ch)) = (if cols ed \<le> cursor_col ed + 1 then 0 else cursor_col ed + 1) \<and>
   rows (fst (insert_key ed ch)) = rows ed \<and> cols (fst (insert_key ed ch)) = cols ed \<and>
   length (buffer (fst (insert_key ed ch))) = length (buffer ed)"
  by (simp add: insert_key_def scroll_bottom_id Let_def)

lemma typing_last_row:
  "editor_ok ed \<Longrightarrow> cursor_row ed = rows ed - 1 \<Longrightarrow> int (length s) = cols ed - cursor_col ed \<Longrightarrow>
   \<forall>c\<in>set s. \<not> c_iscntrl c \<Longrightarrow>
   \<exists>ed' out'. read_loop ed out (s @ rest) = read_loop ed' out' rest \<and>
              editor_pending ed' \<and> cursor_row ed' = rows ed' \<and> cursor_col ed' = 0 \<and>
              rows ed' = rows ed \<and> cols ed' = cols ed \<and> length (buffer ed') = length (buffer ed)"
proof (induction s arbitrary: ed out)
  case Nil
  then show ?case by (simp add: editor_ok_def)
next
  case (Cons ch s)
  let ?e = "fst (insert_key ed ch)"
  have r: "read_loop ed out ((ch # s) @ rest) = read_loop ?e (out @ snd (insert_key ed ch)) (s @ rest)"
    unfolding append_Cons by (rule read_loop_printable) (use Cons.prems(4) in simp)
  have row: "cursor_row ed < rows ed" using Cons.prems(1) by (simp add: editor_ok_def)
  note k = insert_key_on_screen [OF row, of ch]
  show ?case
  proof (cases "s = []")
    case True
    then have "editor_pending ?e \<and> cursor_row ?e = rows ?e \<and> cursor_col ?e = 0 \<and>
               rows ?e = rows ed \<and> cols ?e = cols ed \<and> length (buffer ?e) = length (buffer ed)"
      using Cons.prems k by (simp add: editor_ok_def editor_pending_def)
    then show ?thesis using r True by (auto simp del: read_loop.simps(2))
  next
    case False
    then have "1 \<le> int (length s)" by (cases s) auto
    then have "editor_ok ?e" "cursor_row ?e = rows ?e - 1" "int (length s) = cols ?e - cursor_col ?e"
      using Cons.prems k by (auto simp: editor_ok_def)
    then show ?thesis using Cons.IH [of ?e "out @ snd (insert_key ed ch)"] Cons.prems(4) r k
      by (auto simp del: read_loop.simps(2))
  qed
qed

lemma sdiv_nonneg: "0 \<le> k \<Longrightarrow> 0 < l \<Longrightarrow> (k::int) sdiv l = k div l"
  by (cases "k = 0") (simp_all add: signed_divide_int_def sgn_mult abs_mult)
lemma div_lt_bound:
  assumes "0 \<le> r" "r < m" "0 < (n::int)"
  shows "(r * n) div m < n"
proof (rule ccontr)
  have m: "0 < m" using assms by simp
  have q: "(r * n) div m * m \<le> r * n"
    using m by (simp add: minus_mod_eq_div_mult [symmetric])
  assume "\<not> (r * n) div m < n"
  then have "n * m \<le> (r * n) div m * m" using m by (simp add: mult_right_mono)
  moreover have "r * n < n * m" using assms by (simp add: mult.commute mult_strict_right_mono)
  ultimately show False using q by simp
qed

lemma scaled_index_lt:
  assumes "0 \<le> r" "r < m" "0 < n" "0 < (m::int)"
  shows "0 \<le> (r * n) sdiv m \<and> (r * n) sdiv m < n"
  using assms div_lt_bound [of r m n] by (simp add: sdiv_nonneg pos_imp_zdiv_nonneg_iff)

lemma cell_index_lt:
  assumes "0 \<le> y" "y < rs" "0 \<le> x" "x < (cs::int)"
  shows "0 \<le> y * cs + x \<and> y * cs + x < rs * cs"
proof -
  have "(y + 1) * cs \<le> rs * cs" using assms by (simp add: mult_right_mono)
  then show ?thesis using assms by (simp add: algebra_simps)
qed

text \<open>The write of a typed key is inside the buffer on every state the line editor
  passes through: the bottom check scrolls first.\<close>

lemma insert_key_write_in_bounds:
  assumes "editor_pending ed"
  defines "e0 \<equiv> fst (scroll_bottom ed)"
  shows "0 \<le> cursor_row e0 * cols e0 + cursor_col e0 \<and>
         cursor_row e0 * cols e0 + cursor_col e0 < int (length (buffer e0))"
proof -
  have "editor_ok e0" unfolding e0_def using assms(1) by (rule scroll_bottom_ok)
  then show ?thesis using cell_index_lt [of "cursor_row e0" "rows e0" "cursor_col e0" "cols e0"]
    by (auto simp: editor_ok_def)
qed

lemma char_of_65: "char_of (65::nat) = CHR ''A''"
  by code_simp


lemma c_iscntrl_whitespace [simp]: "c_iscntrl NUL" "c_iscntrl TAB"
  by (simp_all add: c_iscntrl_def)

lemma cstr_single: "ch \<noteq> NUL \<Longrightarrow> cstr [ch] = [ch]"
  by (simp add: cstr_def)

lemma editor_print_single:
  "ch \<noteq> NUL \<Longrightarrow> fst (editor_print ed [ch]) = fst (scroll_bottom (fst (wrap_margin (fst (print_branch ed ch)))))"
  by (simp add: editor_print_fst cstr_single print_byte_fst)


lemma print_byte_dims [simp]:
  "rows (fst (print_byte ed ch)) = rows ed" "cols (fst (print_byte ed ch)) = cols ed"
  by (simp_all add: print_byte_fst print_branch_def wrap_margin_def scroll_bottom_def Let_def case_prod_beta)

lemma print_bytes_dims:
  "rows (fst (print_bytes ed s)) = rows ed \<and> cols (fst (print_bytes ed s)) = cols ed"
  by (induction s arbitrary: ed) (simp_all del: print_bytes.simps(2))

lemma read_line_inv:
  assumes "editor_pending ed"
  shows "editor_pending (fst (snd (editor_read_line ed inp))) \<and>
    (\<forall>l. fst (editor_read_line ed inp) = Read_line l \<longrightarrow> editor_ok (fst (snd (editor_read_line ed inp))))"
proof -
  obtain r ed' out rest where e: "read_loop ed [] inp = (r, ed', out, rest)"
    by (cases "read_loop ed [] inp") auto
  show ?thesis using read_loop_inv [OF assms e] e by (simp add: editor_read_line_def)
qed

section \<open>Properties of the editor\<close>

text \<open>
  C10: \<open>editor_print\<close> keeps the editor valid: from a non-empty screen with the
  cursor on it, printing any string (wrapping, tab stops, newlines and scrolling
  included) leaves the cursor on the screen, the buffer at \<open>rows * cols\<close> bytes
  and the screen size unchanged, so the next write lands inside the buffer.
\<close>

theorem editor_print_keeps_screen:
  "editor_ok ed \<Longrightarrow>
   editor_ok (fst (editor_print ed s)) \<and> rows (fst (editor_print ed s)) = rows ed \<and>
   cols (fst (editor_print ed s)) = cols ed"
  using editor_print_ok [of ed s] print_bytes_dims [of ed "cstr s"] by (simp add: editor_print_fst)

lemma editor_print_keeps_screen_witness:
  "editor_ok (fst (editor_print (editor_init (Some (3, 4))) ''ABCDEFGHIJKLMN''))"
  by (rule conjunct1 [OF editor_print_keeps_screen])
    (simp add: editor_init_def get_window_size_def editor_ok_def)

text \<open>
  printing a printable byte away from the right margin writes it into the
  buffer cell of the cursor, \<open>row * cols + col\<close>, which lies inside the buffer, and
  moves the cursor one column right; nothing else changes.
\<close>

lemma print_printable_cell:
  assumes "editor_ok ed" "\<not> c_iscntrl ch" "cursor_col ed + 1 < cols ed"
  shows "fst (editor_print ed [ch]) =
           ed\<lparr>buffer := (buffer ed)[nat (cursor_row ed * cols ed + cursor_col ed) := ch],
              cursor_col := cursor_col ed + 1\<rparr> \<and>
         nat (cursor_row ed * cols ed + cursor_col ed) < length (buffer ed)"
proof -
  have "ch \<noteq> NUL" "ch \<noteq> LF" "ch \<noteq> CR" "ch \<noteq> TAB" using assms(2) by auto
  moreover have "0 \<le> cursor_row ed * cols ed + cursor_col ed \<and>
                 cursor_row ed * cols ed + cursor_col ed < rows ed * cols ed"
    using assms(1) by (intro cell_index_lt) (auto simp: editor_ok_def)
  ultimately show ?thesis using assms
    by (simp add: editor_print_single print_branch_def wrap_margin_def scroll_bottom_def editor_ok_def
        nat_less_iff)
qed
lemma print_printable_cell_witness:
  "fst (editor_print (editor_init (Some (3, 4))) ''A'') =
   (editor_init (Some (3, 4)))\<lparr>buffer := (replicate 12 (CHR '' ''))[0 := CHR ''A''], cursor_col := 1\<rparr>"
  using print_printable_cell [of "editor_init (Some (3, 4))" "CHR ''A''"]
  by (simp add: editor_init_def get_window_size_def editor_ok_def c_iscntrl_def)

text \<open>
  a TAB moves the cursor to the next multiple of 8 (\<open>(col + 8) & ~7\<close>) without
  touching the buffer, when that column is still on the row.
\<close>

lemma print_tab_stop:
  assumes "editor_ok ed" "(cursor_col ed div 8 + 1) * 8 < cols ed"
  shows "fst (editor_print ed [TAB]) = ed\<lparr>cursor_col := (cursor_col ed div 8 + 1) * 8\<rparr>"
proof -
  have "(cursor_col ed + 8) AND NOT 7 = (cursor_col ed + 8) - (cursor_col ed + 8) mod 8"
    by (rule tab_stop)
  also have "\<dots> = (cursor_col ed div 8 + 1) * 8"
    by (simp add: minus_mod_eq_mult_div algebra_simps)
  finally have t: "(cursor_col ed + 8) AND NOT 7 = (cursor_col ed div 8 + 1) * 8" .
  show ?thesis using assms t [simplified]
    by (simp add: editor_print_single print_branch_def wrap_margin_def scroll_bottom_def editor_ok_def Let_def)
qed

lemma print_tab_stop_witness:
  "fst (editor_print ((editor_init (Some (3, 20)))\<lparr>cursor_col := 3\<rparr>) [TAB]) =
   (editor_init (Some (3, 20)))\<lparr>cursor_col := 8\<rparr>"
  using print_tab_stop [of "(editor_init (Some (3, 20)))\<lparr>cursor_col := 3\<rparr>"]
  by (simp add: editor_init_def get_window_size_def editor_ok_def)

text \<open>
  C11: the state invariant of the line editor: started with the cursor on the screen
  or one row below it, the cursor column inside the screen and a buffer of
  \<open>rows * cols\<close> bytes, every run of \<open>editor_read_line\<close> (a returned line, end of
  input after any prefix of keys, or an overrun) keeps that invariant, and a returned
  line leaves the cursor on the screen. Each key handler's bound is needed: the wrap
  after the last column, the arrow bounds, the column test of Backspace.
\<close>

theorem read_line_invariant:
  "editor_pending ed \<Longrightarrow> editor_read_line ed inp = (r, ed', out, rest) \<Longrightarrow>
   editor_pending ed' \<and> (\<forall>l. r = Read_line l \<longrightarrow> editor_ok ed')"
  using read_loop_inv [of ed "[]" inp r ed' out rest] by (simp add: editor_read_line_def)

lemma read_line_invariant_witness:
  "editor_pending (fst (snd (editor_read_line (editor_init (Some (3, 12))) ''AB'')))"
proof -
  obtain r e ob t where e: "editor_read_line (editor_init (Some (3, 12))) ''AB'' = (r, e, ob, t)"
    by (metis prod_cases4)
  have "editor_pending (editor_init (Some (3, 12)))"
    by (simp add: editor_init_def get_window_size_def editor_pending_def)
  then show ?thesis using read_line_invariant [OF _ e] e by simp
qed

text \<open>
  C36: Enter returns the row under the cursor with its leading and trailing blanks
  removed: the two index loops of \<open>editor_read_line\<close> compute \<open>trim_blanks\<close> of the
  row's \<open>cols\<close> bytes.
\<close>

theorem read_line_enter_trims:
  "editor_pending ed \<Longrightarrow> cursor_row ed < rows ed \<Longrightarrow>
   fst (editor_read_line ed (CR # inp)) =
   Read_line (trim_blanks (buf_segment (buffer ed) (cursor_row ed * cols ed)
                                       (cursor_row ed * cols ed + cols ed - 1)))"
  using enter_key_row [of ed] by (simp add: editor_read_line_def case_prod_beta)

lemma read_line_enter_trims_witness:
  "fst (editor_read_line \<lparr>cols = 4, rows = 2, cursor_row = 0, cursor_col = 0, buffer = '' X      ''\<rparr> [CR]) =
   Read_line ''X''"
  using read_line_enter_trims [of "\<lparr>cols = 4, rows = 2, cursor_row = 0, cursor_col = 0, buffer = '' X      ''\<rparr>" "[]"]
  by (simp add: editor_pending_def buf_segment_def trim_blanks_def)

text \<open>
  C31: a buffer over-read in \<open>editor_read_line\<close>: typing printable keys up to the last
  column of the last row moves the cursor below the screen without scrolling, and
  the Enter that follows picks the line at \<open>rows * cols\<close>, past the end of the
  buffer.
\<close>

theorem read_line_overruns:
  "editor_ok ed \<Longrightarrow> cursor_row ed = rows ed - 1 \<Longrightarrow> int (length s) = cols ed - cursor_col ed \<Longrightarrow>
   \<forall>c\<in>set s. \<not> c_iscntrl c \<Longrightarrow> fst (editor_read_line ed (s @ CR # inp)) = Read_overrun"
proof -
  assume a: "editor_ok ed" "cursor_row ed = rows ed - 1" "int (length s) = cols ed - cursor_col ed"
    "\<forall>c\<in>set s. \<not> c_iscntrl c"
  obtain ed' out' where "read_loop ed [] (s @ CR # inp) = read_loop ed' out' (CR # inp)"
    "editor_pending ed'" "cursor_row ed' = rows ed'"
    using typing_last_row [OF a, where out = "[]" and rest = "CR # inp"] by blast
  then show ?thesis using enter_key_overrun [of ed'] by (simp add: editor_read_line_def del: read_loop.simps(2))
    (simp add: case_prod_beta)
qed

lemma read_line_overruns_witness:
  "fst (editor_read_line \<lparr>cols = 4, rows = 2, cursor_row = 1, cursor_col = 0, buffer = replicate 8 (CHR '' '')\<rparr>
     (''ABCD'' @ [CR])) = Read_overrun"
  using read_line_overruns [of "\<lparr>cols = 4, rows = 2, cursor_row = 1, cursor_col = 0, buffer = replicate 8 (CHR '' '')\<rparr>"
      "''ABCD''" "[]"]
  by (simp add: editor_ok_def c_iscntrl_def)

text \<open>
  C7: a buffer over-write in \<open>editor_read_line\<close>: after typing up to the last column
  of the last row the cursor stands at column 0 below the screen; the Right arrow
  moves it to column 1 there, and Backspace then writes a blank at
  \<open>rows * cols\<close>, past the end of the buffer.
\<close>

theorem read_line_backspace_overruns:
  assumes "editor_ok ed" "cursor_row ed = rows ed - 1" "2 \<le> cols ed"
    "int (length s) = cols ed - cursor_col ed" "\<forall>c\<in>set s. \<not> c_iscntrl c"
  shows "fst (editor_read_line ed (s @ ESC # CHR ''['' # CHR ''C'' # CHR 0x7F # inp)) = Read_overrun"
proof -
  obtain ed' out' where e: "read_loop ed [] (s @ ESC # CHR ''['' # CHR ''C'' # CHR 0x7F # inp) =
      read_loop ed' out' (ESC # CHR ''['' # CHR ''C'' # CHR 0x7F # inp)"
    "editor_pending ed'" "cursor_row ed' = rows ed'" "cursor_col ed' = 0" "cols ed' = cols ed"
    using typing_last_row [OF assms(1,2,4,5), where out = "[]" and rest = "ESC # CHR ''['' # CHR ''C'' # CHR 0x7F # inp"]
    by blast
  let ?e1 = "ed'\<lparr>cursor_col := 1\<rparr>"
  have a: "arrow_key ed' (CHR ''['') (CHR ''C'') = ?e1" using e(4,5) assms(3) by (simp add: arrow_key_def)
  have b: "backspace_key ?e1 = None" using e(2,3) by (simp add: backspace_key_def editor_pending_def)
  have "read_loop ed' out' (ESC # CHR ''['' # CHR ''C'' # CHR 0x7F # inp) =
        read_loop ?e1 (out' @ cursor_escape (cursor_row ?e1 + 1) (cursor_col ?e1 + 1)) (CHR 0x7F # inp)"
    using a by (simp add: ESC_def del: read_loop.simps(2) cong: if_cong) (simp add: ESC_def)
  also have "\<dots> = (Read_overrun, ?e1, out' @ cursor_escape (cursor_row ?e1 + 1) (cursor_col ?e1 + 1), inp)"
    using b by simp
  finally show ?thesis using e(1) by (simp add: editor_read_line_def del: read_loop.simps(2))
qed

lemma read_line_backspace_overruns_witness:
  "fst (editor_read_line \<lparr>cols = 4, rows = 2, cursor_row = 1, cursor_col = 0, buffer = replicate 8 (CHR '' '')\<rparr>
     (''ABCD'' @ ESC # CHR ''['' # CHR ''C'' # CHR 0x7F # [])) = Read_overrun"
  using read_line_backspace_overruns [of "\<lparr>cols = 4, rows = 2, cursor_row = 1, cursor_col = 0, buffer = replicate 8 (CHR '' '')\<rparr>"
      "''ABCD''" "[]"]
  by (simp add: editor_ok_def c_iscntrl_def)

text \<open>
  a line typed exactly as wide as the screen is lost: the cursor wraps to the
  next row, and Enter returns that (empty) row instead.
\<close>

lemma read_line_full_width_lost:
  "fst (editor_read_line (editor_init (Some (3, 4))) (''ABCD'' @ [CR])) = Read_line []"
  by code_simp

text \<open>
  \<open>editor_init\<close> gives a valid editor exactly when the terminal reports a
  non-zero number of rows (or no size at all): a window of 0 rows and non-zero
  columns gives an empty buffer, on which the first scroll passes a negative size
  to \<open>memmove\<close>.
\<close>

lemma editor_init_ok_iff:
  "editor_ok (editor_init ws) \<longleftrightarrow> (case ws of None \<Rightarrow> True | Some (r, c) \<Rightarrow> 0 < r \<or> c = 0)"
  by (auto simp: editor_init_def get_window_size_def editor_ok_def split: option.split)

text \<open>
  C32: POKE into screen memory is never clipped: for any valid editor, the 40 x 25
  cell of an address in 1024..2023 is scaled to a cell inside the terminal screen,
  and only that cell of the buffer changes.
\<close>

theorem poke_cell_on_screen:
  assumes "editor_ok ed" "1024 \<le> addr" "addr < 2024"
  shows "\<exists>i. 0 \<le> i \<and> i < rows ed * cols ed \<and>
           fst (editor_poke_char ed addr v) = ed\<lparr>buffer := (buffer ed)[nat i := screen_code_char v]\<rparr>"
proof -
  define off where "off = addr - 1024"
  define tr where "tr = (off div 40 * rows ed) sdiv 25"
  define tc where "tc = (off mod 40 * cols ed) sdiv 40"
  have off: "0 \<le> off" "off < 1000" using assms by (simp_all add: off_def)
  have "0 \<le> tr \<and> tr < rows ed" unfolding tr_def
    using off assms(1) by (intro scaled_index_lt) (auto simp: editor_ok_def)
  moreover have "0 \<le> tc \<and> tc < cols ed" unfolding tc_def
    using off assms(1) by (intro scaled_index_lt) (auto simp: editor_ok_def)
  ultimately have "0 \<le> tr * cols ed + tc \<and> tr * cols ed + tc < rows ed * cols ed"
    by (intro cell_index_lt) auto
  moreover have "fst (editor_poke_char ed addr v) =
      ed\<lparr>buffer := (buffer ed)[nat (tr * cols ed + tc) := screen_code_char v]\<rparr>"
    using off \<open>0 \<le> tr \<and> tr < rows ed\<close> \<open>0 \<le> tc \<and> tc < cols ed\<close>
    by (simp add: editor_poke_char_def editor_plot_def off_def [symmetric] tr_def [symmetric]
        tc_def [symmetric] Let_def)
  ultimately show ?thesis by blast
qed
lemma poke_cell_on_screen_witness:
  "\<exists>i. 0 \<le> i \<and> i < rows (editor_init None) * cols (editor_init None) \<and>
       fst (editor_poke_char (editor_init None) 2023 81) =
       (editor_init None)\<lparr>buffer := (buffer (editor_init None))[nat i := screen_code_char 81]\<rparr>"
  by (rule poke_cell_on_screen) (simp_all add: editor_init_def get_window_size_def editor_ok_def)

text \<open>
  on a 40 x 25 terminal the scaling is the identity: POKE 1024 + i writes screen
  cell i.
\<close>

lemma poke_c64_screen_exact:
  assumes "rows ed = 25" "cols ed = 40" "1024 \<le> addr" "addr < 2024"
  shows "buffer (fst (editor_poke_char ed addr v)) = (buffer ed)[nat (addr - 1024) := screen_code_char v]"
proof -
  define off where "off = addr - 1024"
  define r where "r = off div 40"
  define c where "c = off mod 40"
  have off: "0 \<le> off" "off < 1000" using assms by (simp_all add: off_def)
  have rc: "0 \<le> r" "r < 25" "0 \<le> c" "c < 40" using off by (simp_all add: r_def c_def)
  have tr: "(r * rows ed) sdiv 25 = r" using rc assms by (simp add: sdiv_nonneg)
  have tc: "(c * cols ed) sdiv 40 = c" using rc assms by (simp add: sdiv_nonneg)
  have idx: "r * cols ed + c = off" using assms by (simp add: r_def c_def)
  have "fst (editor_poke_char ed addr v) = fst (editor_plot ed c r (screen_code_char v))"
    using off unfolding editor_poke_char_def Let_def off_def [symmetric] r_def [symmetric] c_def [symmetric] tr tc
    by simp
  also have "\<dots> = ed\<lparr>buffer := (buffer ed)[nat off := screen_code_char v]\<rparr>"
    using rc assms idx by (simp add: editor_plot_def)
  finally show ?thesis by (simp add: off_def)
qed
lemma poke_c64_screen_exact_witness:
  "buffer (fst (editor_poke_char (editor_init (Some (25, 40))) 1065 1)) =
   (replicate 1000 (CHR '' ''))[41 := CHR ''A'']"
  using poke_c64_screen_exact [of "editor_init (Some (25, 40))" 1065 1]
  by (simp add: editor_init_def get_window_size_def screen_code_char_def char_of_65)
text \<open>
  C33: the screen-code table sends exactly two codes to a terminal control
  character: 95 and 127 both become DEL (127); every other code is printable.
\<close>

lemma screen_code_control:
  "c_iscntrl (screen_code_char v) \<longleftrightarrow> unat v = 95 \<or> unat v = 127"
proof -
  have "unat v < 256" using unsigned_less [of v] by simp
  then show ?thesis
    by (auto simp: screen_code_char_def c_iscntrl_def Let_def of_char_of)
qed
text \<open>
  \<open>editor_set_background_color\<close> only emits ANSI background codes (40-47,
  100-107), for every \<open>int\<close> argument.
\<close>

lemma ansi_bg_range: "ansi_bg color \<in> {40..47} \<union> {100..107}"
proof -
  have "color AND 15 = color mod 16"
    using take_bit_eq_mask [of 4 color] take_bit_eq_mod [of 4 color] by (simp add: mask_eq_exp_minus_1)
  then have "nat (color AND 15) < 16" by simp
  then show ?thesis unfolding ansi_bg_def ansi_bg_table_def
    by (auto simp: less_Suc_eq numeral_eq_Suc nth_Cons')
qed

end
