(* ===== verification/Files.thy ===== *)
theory Files
  imports Interp
begin

text \<open>
  LOAD and SAVE of \<open>src/interpreter.c\<close> (\<open>interpreter_load\<close>,
  \<open>interpreter_save\<close>). The file system is a record of the files' contents
  (\<open>None\<close>: \<open>fopen\<close> for reading fails) and of the names \<open>fopen\<close> may open
  for writing. SAVE writes one \<open>"%d %s\n"\<close> line per program line; LOAD reads the
  file with \<open>fgets\<close> into a 1024-byte buffer (chunks of at most 1023 bytes,
  each ending at the first newline), strips the newline and parses the chunk with
  \<open>sscanf(line, "%d %[^\n]", ...)\<close>, adding the line when both conversions succeed.
  \<open>%d\<close> is glibc's: leading white space, an optional sign, decimal digits, the
  value clamped to \<open>long\<close> as \<open>strtol\<close> does and stored into an \<open>int\<close>
  (\<open>long_to_int\<close>, the low 32 bits).
\<close>

record fsys =
  files :: "string \<Rightarrow> string option"
  writable :: "string \<Rightarrow> bool"

section \<open>C library conversions\<close>

definition c_isspace :: "char \<Rightarrow> bool" where
  "c_isspace c \<longleftrightarrow> c = CHR '' '' \<or> (9 \<le> (of_char c :: nat) \<and> (of_char c :: nat) \<le> 13)"

definition LONG_MAX :: int where "LONG_MAX = 2 ^ 63 - 1"
definition LONG_MIN :: int where "LONG_MIN = - (2 ^ 63)"

text \<open>A \<open>long\<close> stored into an \<open>int\<close> (gcc: the low 32 bits, two's complement).\<close>

definition long_to_int :: "int \<Rightarrow> int" where
  "long_to_int x = sint (word_of_int x :: 32 word)"

text \<open>\<open>strtol\<close> on a sign and a non-empty digit string: the value, clamped to
  \<open>[LONG_MIN, LONG_MAX]\<close> on overflow.\<close>

definition strtol_value :: "bool \<Rightarrow> string \<Rightarrow> int" where
  "strtol_value neg ds =
     (let v = int (digits_value ds) in if neg then max (- v) LONG_MIN else min v LONG_MAX)"

text \<open>The \<open>%d\<close> conversion: \<open>Some\<close> the \<open>int\<close> stored and the rest of the input.\<close>

definition scan_int :: "string \<Rightarrow> (int \<times> string) option" where
  "scan_int s =
     (let s1 = dropWhile c_isspace s;
          (neg, s2) = (case s1 of c # r \<Rightarrow> if c = CHR ''-'' then (True, r)
                                         else if c = CHR ''+'' then (False, r) else (False, s1)
                       | [] \<Rightarrow> (False, []));
          ds = takeWhile c_isdigit s2
      in if ds = [] then None else Some (long_to_int (strtol_value neg ds), dropWhile c_isdigit s2))"

text \<open>\<open>sscanf(line, "%d %[^\n]", &n, text) == 2\<close>: the blank directive skips white
  space, \<open>%[^\n]\<close> needs at least one byte other than a newline.\<close>

definition sscanf_line :: "string \<Rightarrow> (int \<times> string) option" where
  "sscanf_line s =
     (case scan_int s of
        None \<Rightarrow> None
      | Some (n, r) \<Rightarrow>
          (let t = takeWhile (\<lambda>c. c \<noteq> LF) (dropWhile c_isspace r) in
           if t = [] then None else Some (n, t)))"

section \<open>LOAD\<close>

text \<open>The length of the chunk \<open>fgets(line, 1024, file)\<close> reads.\<close>

definition fgets_len :: "string \<Rightarrow> nat" where
  "fgets_len s =
     (let i = length (takeWhile (\<lambda>c. c \<noteq> LF) s) in min 1023 (if i < length s then i + 1 else i))"

function fgets_lines :: "string \<Rightarrow> string list" where
  "fgets_lines s = (if s = [] then [] else take (fgets_len s) s # fgets_lines (drop (fgets_len s) s))"
  by pat_completeness auto
termination
proof (relation "measure length")
  fix s :: string
  assume "s \<noteq> []"
  then have "0 < fgets_len s" by (cases s) (auto simp: fgets_len_def Let_def)
  then show "(drop (fgets_len s) s, s) \<in> measure length" using \<open>s \<noteq> []\<close> by simp
qed simp

declare fgets_lines.simps [simp del]

definition strip_newline :: "string \<Rightarrow> string" where
  "strip_newline l = (if l \<noteq> [] \<and> last l = LF then butlast l else l)"

definition load_line :: "interp \<Rightarrow> string \<Rightarrow> interp" where
  "load_line it chunk =
     (case sscanf_line (strip_newline (cstr chunk)) of
        Some (n, t) \<Rightarrow> it\<lparr>program := program_add_line (program it) n t\<rparr>
      | None \<Rightarrow> it)"

definition interpreter_load :: "fsys \<Rightarrow> interp \<Rightarrow> string \<Rightarrow> interp \<times> bool" where
  "interpreter_load fs it name =
     (case files fs name of
        None \<Rightarrow> (report_error it ''FILE NOT FOUND'', False)
      | Some content \<Rightarrow> (foldl load_line (interpreter_new it) (fgets_lines content), True))"

section \<open>SAVE\<close>

definition save_text :: "program \<Rightarrow> string" where
  "save_text prog = concat (map list_line_text prog)"

definition interpreter_save :: "fsys \<Rightarrow> interp \<Rightarrow> string \<Rightarrow> interp \<times> fsys \<times> bool" where
  "interpreter_save fs it name =
     (if \<not> writable fs name then (report_error it ''CANNOT SAVE FILE'', fs, False)
      else (it, fs\<lparr>files := (files fs)(name := Some (save_text (program it)))\<rparr>, True))"

section \<open>The lines a file holds\<close>

text \<open>A program line that SAVE writes as one line LOAD reads back: a number that an
  \<open>int\<close> holds and is not negative, a text that is not empty, does not start with
  white space, holds no newline and no NUL, and a saved line that fits \<open>fgets\<close>'s
  buffer.\<close>

definition file_line_ok :: "program_line \<Rightarrow> bool" where
  "file_line_ok l \<longleftrightarrow>
     0 \<le> line_number l \<and> line_number l \<le> INT_MAX \<and> line_text l \<noteq> [] \<and>
     \<not> c_isspace (hd (line_text l)) \<and> LF \<notin> set (line_text l) \<and> NUL \<notin> set (line_text l) \<and>
     length (list_line_text l) \<le> 1023"

section \<open>Lemmas\<close>


lemma long_to_int_id: "INT_MIN \<le> x \<Longrightarrow> x \<le> INT_MAX \<Longrightarrow> long_to_int x = x"
  by (simp add: long_to_int_def INT_MIN_def INT_MAX_def sint_sbintrunc' signed_take_bit_int_eq_self)

lemma nat_digits_not_Nil: "nat_digits n \<noteq> []"
  by (subst nat_digits.simps) simp

lemma nat_digits_hd_digit: "c_isdigit (hd (nat_digits n))"
  using nat_digits_isdigit [of "hd (nat_digits n)" n] nat_digits_not_Nil [of n] by simp

lemma c_isdigit_not_space: "c_isdigit c \<Longrightarrow> \<not> c_isspace c"
  by (auto simp: c_isdigit_def c_isspace_def)

lemma nat_digits_split:
  assumes "r = [] \<or> \<not> c_isdigit (hd r)"
  shows "takeWhile c_isdigit (nat_digits n @ r) = nat_digits n \<and> dropWhile c_isdigit (nat_digits n @ r) = r"
proof -
  have "\<forall>x\<in>set (nat_digits n). c_isdigit x" using nat_digits_isdigit by blast
  then show ?thesis using assms by (cases r) (auto simp: takeWhile_append2 dropWhile_append2)
qed

lemma strtol_nat_digits:
  "n \<le> nat INT_MAX \<Longrightarrow> long_to_int (strtol_value False (nat_digits n)) = int n"
  by (simp add: strtol_value_def digits_value_nat_digits long_to_int_id INT_MIN_def INT_MAX_def LONG_MAX_def)

lemma scan_int_nat:
  assumes "r = [] \<or> \<not> c_isdigit (hd r)" "n \<le> nat INT_MAX"
  shows "scan_int (nat_digits n @ r) = Some (int n, r)"
proof -
  obtain c cs where ds: "nat_digits n = c # cs" using nat_digits_not_Nil [of n] by (cases "nat_digits n") auto
  have c: "c_isdigit c" using nat_digits_hd_digit [of n] ds by simp
  then have sp: "\<not> c_isspace c" "c \<noteq> CHR ''-''" "c \<noteq> CHR ''+''"
    by (auto simp: c_isdigit_not_space c_isdigit_def)
  show ?thesis using ds c sp nat_digits_split [OF assms(1), of n] strtol_nat_digits [OF assms(2)]
    by (simp add: scan_int_def Let_def)
qed

lemma sscanf_saved_line:
  assumes "file_line_ok l"
  shows "sscanf_line (strip_newline (cstr (list_line_text l))) = Some (line_number l, line_text l)"
proof -
  define n where "n = nat (line_number l)"
  have n: "int n = line_number l" "n \<le> nat INT_MAX" using assms by (auto simp: file_line_ok_def n_def)
  have its: "int_to_string (line_number l) = nat_digits n"
    using assms by (simp add: int_to_string_def n_def file_line_ok_def)
  have nul: "NUL \<notin> set (list_line_text l)"
    using assms nat_digits_isdigit [of NUL n]
    by (auto simp: list_line_text_def its file_line_ok_def c_isdigit_def)
  have "cstr (list_line_text l) = list_line_text l"
    using nul by (auto simp: cstr_def takeWhile_eq_all_conv)
  then have strip: "strip_newline (cstr (list_line_text l)) = nat_digits n @ CHR '' '' # line_text l"
    by (simp add: list_line_text_def its strip_newline_def butlast_append)
  obtain c t where t: "line_text l = c # t" using assms by (cases "line_text l") (auto simp: file_line_ok_def)
  have sp: "\<not> c_isspace c" "CHR '' '' \<noteq> LF" "c_isspace (CHR '' '')" using assms t
    by (auto simp: file_line_ok_def c_isspace_def)
  have "takeWhile (\<lambda>x. x \<noteq> LF) (line_text l) = line_text l" using assms
    by (auto simp: takeWhile_eq_all_conv file_line_ok_def)
  then show ?thesis using strip scan_int_nat [of "CHR '' '' # line_text l" n] n sp t
    by (simp add: sscanf_line_def c_isdigit_def)
qed

lemma fgets_lines_concat:
  "\<forall>x\<in>set xs. x \<noteq> [] \<and> last x = LF \<and> LF \<notin> set (butlast x) \<and> length x \<le> 1023 \<Longrightarrow>
   fgets_lines (concat xs) = xs"
proof (induction xs)
  case Nil
  then show ?case by (simp add: fgets_lines.simps)
next
  case (Cons x xs)
  have x: "LF \<notin> set (butlast x)" "length x \<le> 1023" "x \<noteq> []" "last x = LF"
    using Cons.prems by simp_all
  have x1: "x = butlast x @ [LF]" using x(3,4) append_butlast_last_id [of x] by simp
  have "takeWhile (\<lambda>c. c \<noteq> LF) (x @ concat xs) = butlast x"
  proof -
    have "\<forall>c\<in>set (butlast x). c \<noteq> LF" using x(1) by auto
    then show ?thesis by (subst x1) (simp add: takeWhile_append2)
  qed
  moreover have "length x - Suc 0 < length x + length (concat xs)" using x(3) by (cases x) auto
  ultimately have "fgets_len (x @ concat xs) = length x"
    using x(2,3) by (cases x) (simp_all add: fgets_len_def Let_def)
  then show ?case using Cons x(3) by (subst fgets_lines.simps) simp
qed

lemma program_delete_absent:
  "n \<notin> line_number ` set prog \<Longrightarrow> program_delete_line prog n = prog"
  by (induction prog) auto

lemma insert_walk_last:
  "\<forall>l\<in>set ls. line_number l < line_number new \<Longrightarrow> insert_walk new ls = ls @ [new]"
  by (induction ls) auto

lemma program_add_line_last:
  assumes "\<forall>l\<in>set prog. line_number l < n" "cstr t = t" "t \<noteq> []"
  shows "program_add_line prog n t = prog @ [\<lparr>line_number = n, line_text = t\<rparr>]"
proof -
  have "program_delete_line prog n = prog"
    using assms(1) by (intro program_delete_absent) auto
  then show ?thesis using assms
    by (cases prog) (auto simp: program_add_line_def insert_line_def insert_walk_last)
qed

lemma load_saved_lines:
  "program_ok (p @ ls) \<Longrightarrow> \<forall>l\<in>set ls. file_line_ok l \<Longrightarrow>
   program (foldl load_line it (map list_line_text ls)) = p @ ls"
  if "program it = p"
  using that
proof (induction ls arbitrary: it p rule: rev_induct)
  case Nil
  then show ?case by simp
next
  case (snoc l ls)
  have ok: "program_ok (p @ ls)" using snoc.prems(1) by (simp add: program_ok_def sorted_wrt_append)
  have prog: "program (foldl load_line it (map list_line_text ls)) = p @ ls"
    using snoc ok by simp
  have lt: "\<forall>l'\<in>set (p @ ls). line_number l' < line_number l"
    using snoc.prems(1) by (auto simp: program_ok_def sorted_wrt_append)
  have fl: "file_line_ok l" using snoc.prems(2) by simp
  then have "cstr (line_text l) = line_text l" "line_text l \<noteq> []"
    by (simp_all add: file_line_ok_def cstr_no_NUL)
  then have "program_add_line (p @ ls) (line_number l) (line_text l) = p @ ls @ [l]"
    using lt by (simp add: program_add_line_last)
  moreover have "program (load_line it0 (list_line_text l)) =
      program_add_line (program it0) (line_number l) (line_text l)" for it0
    using sscanf_saved_line [OF fl] by (simp add: load_line_def)
  ultimately show ?case using prog by simp
qed

lemma list_line_text_shape:
  "file_line_ok l \<Longrightarrow>
   list_line_text l \<noteq> [] \<and> last (list_line_text l) = LF \<and> LF \<notin> set (butlast (list_line_text l)) \<and>
   length (list_line_text l) \<le> 1023"
  using nat_digits_isdigit [of LF "nat (line_number l)"]
  by (auto simp: file_line_ok_def list_line_text_def int_to_string_def butlast_append c_isdigit_def)

section \<open>Properties of LOAD and SAVE\<close>

text \<open>
  C12: SAVE then LOAD gives back the program: for a valid program whose lines
  \<open>file_line_ok\<close> accepts, SAVE to a writable name succeeds and LOAD of that file,
  from any interpreter state, restores exactly the saved lines in order.
\<close>

theorem save_load_roundtrip:
  assumes "program_ok (program it)" "\<forall>l\<in>set (program it). file_line_ok l" "writable fs name"
  shows "snd (snd (interpreter_save fs it name)) \<and>
         program (fst (interpreter_load (fst (snd (interpreter_save fs it name))) it' name)) = program it"
proof -
  have "fgets_lines (save_text (program it)) = map list_line_text (program it)"
    unfolding save_text_def using assms(2) list_line_text_shape by (intro fgets_lines_concat) auto
  moreover have "program (foldl load_line (interpreter_new it') (map list_line_text (program it))) = program it"
    using load_saved_lines [of "interpreter_new it'" "[]" "program it"] assms(1,2)
    by (simp add: interpreter_new_def program_clear_def)
  ultimately show ?thesis using assms(3)
    by (simp add: interpreter_save_def interpreter_load_def)
qed

lemma save_load_roundtrip_witness:
  "program (fst (interpreter_load
      (fst (snd (interpreter_save \<lparr>files = \<lambda>_. None, writable = \<lambda>_. True\<rparr>
        (interpreter_init\<lparr>program := [\<lparr>line_number = 10, line_text = ''PRINT 1''\<rparr>,
                                     \<lparr>line_number = 20, line_text = ''GOTO 10''\<rparr>]\<rparr>) ''A.BAS'')))
      interpreter_init ''A.BAS'')) =
   [\<lparr>line_number = 10, line_text = ''PRINT 1''\<rparr>, \<lparr>line_number = 20, line_text = ''GOTO 10''\<rparr>]"
proof -
  let ?it = "interpreter_init\<lparr>program := [\<lparr>line_number = 10, line_text = ''PRINT 1''\<rparr>,
                                     \<lparr>line_number = 20, line_text = ''GOTO 10''\<rparr>]\<rparr>"
  have "\<forall>l\<in>set (program ?it). file_line_ok l"
    by code_simp
  then show ?thesis
    using save_load_roundtrip [of ?it "\<lparr>files = \<lambda>_. None, writable = \<lambda>_. True\<rparr>" "''A.BAS''" interpreter_init]
    by simp
qed

lemma strtol_value_nat_digits: "strtol_value False (nat_digits n) = min (int n) LONG_MAX"
  by (simp add: strtol_value_def digits_value_nat_digits)

lemma strtol_nat_digits_wrap:
  "long_to_int (strtol_value False (nat_digits n)) =
     (if n \<le> nat LONG_MAX then sint (word_of_nat n :: 32 word) else -1)"
proof (cases "n \<le> nat LONG_MAX")
  case True
  then have "min (int n) LONG_MAX = int n" by (simp add: LONG_MAX_def)
  then show ?thesis using True unfolding strtol_value_nat_digits long_to_int_def by simp
next
  case False
  then have "min (int n) LONG_MAX = LONG_MAX" by (simp add: LONG_MAX_def)
  moreover have "sint (word_of_int LONG_MAX :: 32 word) = -1" by (simp add: LONG_MAX_def)
  ultimately show ?thesis using False unfolding strtol_value_nat_digits long_to_int_def by simp
qed

lemma nat_digits_no_NUL: "NUL \<notin> set (nat_digits n)"
  using nat_digits_isdigit [of NUL n] by (auto simp: c_isdigit_def)

text \<open>
  C37: LOAD does not require the blank the file format specifies between number and
  text (\<open>%d %[^\n]\<close> lets the blank directive match nothing), and a number beyond
  \<open>int\<close> is stored modulo \<open>2^32\<close> (clamped to \<open>LONG_MAX\<close> first, whose low
  32 bits are -1): a file line of digits and a text stores the text under that
  wrapped number.
\<close>

theorem load_line_parse_lenient:
  assumes "t \<noteq> []" "\<not> c_isdigit (hd t)" "\<not> c_isspace (hd t)" "LF \<notin> set t" "NUL \<notin> set t"
  shows "program (load_line it (nat_digits n @ t @ [LF])) =
           program_add_line (program it) (if n \<le> nat LONG_MAX then sint (word_of_nat n :: 32 word) else -1) t"
proof -
  obtain c cs where ds: "nat_digits n = c # cs" using nat_digits_not_Nil [of n] by (cases "nat_digits n") auto
  have c: "c_isdigit c" using nat_digits_hd_digit [of n] ds by simp
  then have sp: "\<not> c_isspace c" "c \<noteq> CHR ''-''" "c \<noteq> CHR ''+''"
    by (auto simp: c_isdigit_not_space c_isdigit_def)
  have cs: "cstr (nat_digits n @ t @ [LF]) = nat_digits n @ t @ [LF]"
    using assms(5) nat_digits_no_NUL [of n] by (intro cstr_no_NUL) auto
  have sn: "strip_newline (nat_digits n @ t @ [LF]) = nat_digits n @ t"
    by (simp add: strip_newline_def butlast_append)
  have sc: "scan_int (nat_digits n @ t) =
              Some (if n \<le> nat LONG_MAX then sint (word_of_nat n :: 32 word) else -1, t)"
    using ds c sp nat_digits_split [of t n] assms(1,2) strtol_nat_digits_wrap [of n]
    by (simp add: scan_int_def Let_def)
  have dw: "dropWhile c_isspace t = t"
    using assms(1,3) by (cases t) simp_all
  have tw: "takeWhile (\<lambda>c. c \<noteq> LF) t = t"
    using assms(4) by (auto simp: takeWhile_eq_all_conv)
  show ?thesis using assms(1)
    unfolding load_line_def sscanf_line_def cs sn sc Let_def prod.case option.case dw tw by simp
qed

lemma load_line_parse_lenient_witness:
  "program (load_line interpreter_init (''4294967306PRINT'' @ [LF])) = [\<lparr>line_number = 10, line_text = ''PRINT''\<rparr>]"
proof -
  have d: "nat_digits 4294967306 @ ''PRINT'' @ [LF] = ''4294967306PRINT'' @ [LF]" by code_simp
  have h: "(if (4294967306::nat) \<le> nat LONG_MAX then sint (word_of_nat 4294967306 :: 32 word) else -1) = 10"
    by (simp add: LONG_MAX_def)
  have p: "program_add_line [] 10 ''PRINT'' = [\<lparr>line_number = 10, line_text = ''PRINT''\<rparr>]" by code_simp
  have a: "''PRINT'' \<noteq> [] \<and> \<not> c_isdigit (hd ''PRINT'') \<and> \<not> c_isspace (hd ''PRINT'') \<and>
           LF \<notin> set ''PRINT'' \<and> NUL \<notin> set ''PRINT''" by code_simp
  have "program (load_line interpreter_init (nat_digits 4294967306 @ ''PRINT'' @ [LF])) =
          [\<lparr>line_number = 10, line_text = ''PRINT''\<rparr>]"
    using load_line_parse_lenient [of "''PRINT''" interpreter_init 4294967306] a h p
    by (simp add: interpreter_init_def)
  then show ?thesis by (simp only: d)
qed

end
