(* ===== verification/Repl.thy ===== *)
theory Repl
  imports Run Editor Files
begin

text \<open>
  The front end of \<open>src/cfbasic.c\<close> and the interface between the interpreter and
  the screen editor. The interpreter reports its output as \<open>display_event\<close>s;
  \<open>show_events\<close> applies them to the editor the REPL attached (\<open>interp->editor\<close>),
  the calls \<open>basic_print\<close>, \<open>exec_poke\<close> and \<open>exec_draw\<close> make, and \<open>stderr\<close>
  is a byte stream of its own. A REPL round reads a line with \<open>editor_read_line\<close>,
  stores it when it starts with a line number and otherwise executes it as an
  immediate command (\<open>execute_immediate_command\<close>), then prints \<open>READY.\<close>.
  The state of \<open>repl()\<close> is the record \<open>repl\<close>: the interpreter, the editor
  \<open>ed\<close>, the file system LOAD and SAVE use, and the bytes written to \<open>stdout\<close>
  and \<open>stderr\<close>. A RUN that never ends makes the REPL \<open>None\<close>.
\<close>

section \<open>The memory line of the banner (\<open>src/utils.c\<close>)\<close>

text \<open>\<open>printf("%.Nf", x)\<close> of a non-negative double, rounded to nearest, ties to
  even; the doubles here are integers divided by powers of 2, which the model holds
  exactly.\<close>

definition format_fixed :: "nat \<Rightarrow> real \<Rightarrow> string" where
  "format_fixed d x =
     (let m = nat (round_half_even (x * 10 ^ d)); fp = nat_digits (m mod 10 ^ d) in
      nat_digits (m div 10 ^ d) @
      (if d = 0 then [] else CHR ''.'' # replicate (d - length fp) (CHR ''0'') @ fp))"

text \<open>The unit loop of \<open>format_memory_size\<close>: divide by 1024 while the value is
  at least 1024 and the unit is below GB.\<close>

function scale_unit :: "real \<Rightarrow> nat \<Rightarrow> real \<times> nat" where
  "scale_unit v u = (if 1024 \<le> v \<and> u < 3 then scale_unit (v / 1024) (u + 1) else (v, u))"
  by pat_completeness auto
termination by (relation "measure (\<lambda>(v, u). 3 - u)") auto

declare scale_unit.simps [simp del]

definition memory_units :: "string list" where
  "memory_units = [''B'', ''KB'', ''MB'', ''GB'']"

definition format_memory_size :: "64 word \<Rightarrow> 64 word \<Rightarrow> string" where
  "format_memory_size sz limit =
     (let (sv, su) = scale_unit (real (unat sz)) 0; (lv, lu) = scale_unit (real (unat limit)) 0 in
      format_fixed 2 sv @ CHR '' '' # memory_units ! su @ '' Free, '' @
      format_fixed 0 lv @ CHR '' '' # memory_units ! lu @ '' Allocated'')"

section \<open>\<open>cfbasic.c\<close>\<close>

definition handle_sigint :: "interp \<Rightarrow> interp" where
  "handle_sigint it = it\<lparr>break_requested := True\<rparr>"

definition banner_line1 :: string where "banner_line1 = ''**** CFBasic V1.0 ****''"
definition banner_line2 :: string where
  "banner_line2 = ''A Microsoft BASIC Interpreter for Modern Systems''"

text \<open>The text \<open>print_banner\<close> prints: both title lines centred in \<open>cols\<close>
  (80 without an editor), the upper-cased memory line and \<open>READY.\<close>.\<close>

definition banner_text :: "int \<Rightarrow> string \<Rightarrow> string" where
  "banner_text cs mem =
     (let pad1 = max 0 ((cs - int (length banner_line1)) sdiv 2);
          pad2 = max 0 ((cs - int (length banner_line2)) sdiv 2)
      in replicate (nat pad1) (CHR '' '') @ banner_line1 @ [LF] @
         replicate (nat pad2) (CHR '' '') @ banner_line2 @ [LF, LF] @
         CHR '' '' # str_upper mem @ [LF, LF] @ ''READY.'' @ [LF])"

definition skip_blanks :: "string \<Rightarrow> string" where
  "skip_blanks s = dropWhile (\<lambda>c. c = CHR '' '' \<or> c = TAB) s"

definition is_immediate_command :: "string \<Rightarrow> bool" where
  "is_immediate_command l \<longleftrightarrow> \<not> c_isdigit (c_char_at (skip_blanks l) 0)"

text \<open>\<open>extract_line_number\<close>: the number \<open>strtol\<close> reads, stored into an
  \<open>int\<close>, and \<open>*rest\<close> after the blanks that follow (\<open>None\<close>: not written).\<close>

definition extract_line_number :: "string \<Rightarrow> int \<times> string option" where
  "extract_line_number l =
     (let s = skip_blanks l in
      if \<not> c_isdigit (c_char_at s 0) then (-1, None)
      else (long_to_int (strtol_value False (takeWhile c_isdigit s)),
            Some (skip_blanks (dropWhile c_isdigit s))))"

text \<open>The range after \<open>LIST\<close>: \<open>LIST\<close>, \<open>LIST n\<close>, \<open>LIST n,m\<close>, \<open>LIST n-m\<close>.\<close>

definition list_range :: "lexer \<Rightarrow> int \<times> int" where
  "list_range lx =
     (let (t1, lx1) = lexer_next_token lx in
      if tok_type t1 \<noteq> TOK_NUMBER then (0, -1)
      else
        (let start = double_to_int (number_value t1); (t2, lx2) = lexer_next_token lx1 in
         if tok_type t2 = TOK_COMMA \<or> tok_type t2 = TOK_MINUS then
           (let (t3, lx3) = lexer_next_token lx2 in
            (start, if tok_type t3 = TOK_NUMBER then double_to_int (number_value t3) else -1))
         else (start, -1)))"

text \<open>The file name after LOAD or SAVE: the text of a string token.\<close>

definition file_argument :: "lexer \<Rightarrow> string option" where
  "file_argument lx =
     (let (t, lx1) = lexer_next_token lx in
      if tok_type t = TOK_STRING then Some (case tok_text t of Some s \<Rightarrow> s | None \<Rightarrow> []) else None)"

definition execute_immediate_command :: "fsys \<Rightarrow> interp \<Rightarrow> string \<Rightarrow> (interp \<times> fsys) option" where
  "execute_immediate_command fs it l =
     (let (t, lx) = lexer_next_token (lexer_init l) in
      if tok_type t = TOK_LIST then
        (let (st, en) = list_range lx in Some (interpreter_list it st en, fs))
      else if tok_type t = TOK_RUN then map_option (\<lambda>it'. (it', fs)) (interpreter_run it)
      else if tok_type t = TOK_NEW then Some (interpreter_new it, fs)
      else if tok_type t = TOK_LOAD then
        (case file_argument lx of
           Some name \<Rightarrow> Some (fst (interpreter_load fs it name), fs)
         | None \<Rightarrow> Some (report_error it ''FILENAME REQUIRED'', fs))
      else if tok_type t = TOK_SAVE then
        (case file_argument lx of
           Some name \<Rightarrow> (let (it', fs', ok) = interpreter_save fs it name in Some (it', fs'))
         | None \<Rightarrow> Some (report_error it ''FILENAME REQUIRED'', fs))
      else if tok_type t = TOK_EXIT then Some (it\<lparr>exit_requested := True\<rparr>, fs)
      else Some (interpreter_execute_line it l, fs))"

text \<open>\<open>main\<close> with a file name: LOAD it and RUN it when the load succeeded.\<close>

definition run_file :: "fsys \<Rightarrow> string \<Rightarrow> interp option" where
  "run_file fs name =
     (let (it, ok) = interpreter_load fs interpreter_init name in
      if ok then interpreter_run it else Some it)"

section \<open>The display interface\<close>

text \<open>One display event on the editor: the bytes for \<open>stdout\<close> and for
  \<open>stderr\<close>. POKE passes the address and byte as \<open>int\<close> and \<open>uint8_t\<close>, the
  background colour as \<open>int\<close>.\<close>

fun show_event :: "editor \<Rightarrow> display_event \<Rightarrow> editor \<times> string \<times> string" where
  "show_event ed (Print s) = (let (ed1, o1) = editor_print ed s in (ed1, o1, []))"
| "show_event ed (Stderr s) = (ed, [], s)"
| "show_event ed (Set_background b) =
     (let (ed1, o1) = editor_set_background_color ed (uint b) in (ed1, o1, []))"
| "show_event ed (Poke_char a b) = (let (ed1, o1) = editor_poke_char ed (uint a) b in (ed1, o1, []))"
| "show_event ed (Plot_char x y ch) = (let (ed1, o1) = editor_plot ed x y ch in (ed1, o1, []))"

fun show_events :: "editor \<Rightarrow> display_event list \<Rightarrow> editor \<times> string \<times> string" where
  "show_events ed [] = (ed, [], [])"
| "show_events ed (e # es) =
     (let (ed1, o1, e1) = show_event ed e; (ed2, o2, e2) = show_events ed1 es in (ed2, o1 @ o2, e1 @ e2))"

section \<open>The REPL\<close>

record repl =
  rp_interp :: interp
  rp_editor :: editor
  rp_fs :: fsys
  rp_out :: string
  rp_err :: string

datatype repl_stop = Stop_exit | Stop_eof | Stop_overrun

text \<open>The events an interpreter call added, shown on the editor.\<close>

definition show_new :: "repl \<Rightarrow> interp \<Rightarrow> repl" where
  "show_new st it =
     (let (ed, o1, e1) = show_events (rp_editor st) (drop (length (events (rp_interp st))) (events it)) in
      st\<lparr>rp_interp := it, rp_editor := ed, rp_out := rp_out st @ o1, rp_err := rp_err st @ e1\<rparr>)"

definition repl_print :: "repl \<Rightarrow> string \<Rightarrow> repl" where
  "repl_print st s =
     (let (ed, o1) = editor_print (rp_editor st) s in st\<lparr>rp_editor := ed, rp_out := rp_out st @ o1\<rparr>)"

definition repl_start :: "(nat \<times> nat) option \<Rightarrow> fsys \<Rightarrow> mem_state \<Rightarrow> interp \<Rightarrow> repl" where
  "repl_start ws fs m it =
     (let ed0 = editor_init ws; (ed1, o1) = editor_clear_screen ed0;
          it1 = it\<lparr>editor := Some (editor_dims.truncate ed1)\<rparr>;
          st = \<lparr>rp_interp = it1, rp_editor = ed1, rp_fs = fs, rp_out = o1, rp_err = []\<rparr>
      in repl_print st (banner_text (cols ed1)
           (format_memory_size (get_free_memory m) (total_memory_limit m))))"

text \<open>The body of the REPL loop for a line the editor returned.\<close>

definition repl_line :: "repl \<Rightarrow> string \<Rightarrow> repl option" where
  "repl_line st l =
     (if l = [] then Some st
      else
        (let (n, rest) = extract_line_number l; it = rp_interp st in
         if 0 \<le> n then
           Some (st\<lparr>rp_interp := it\<lparr>program := program_add_line (program it) n (the rest)\<rparr>\<rparr>)
         else
           (case execute_immediate_command (rp_fs st) it l of
              None \<Rightarrow> None
            | Some (it', fs') \<Rightarrow>
                (let st1 = (show_new st it')\<lparr>rp_fs := fs'\<rparr> in
                 Some (if exit_requested it' then st1 else repl_print st1 (LF # ''READY.'' @ [LF]))))))"

definition break_notice :: "repl \<Rightarrow> repl" where
  "break_notice st =
     (repl_print st (LF # ''? BREAK'' @ [LF] @ ''READY.'' @ [LF]))
       \<lparr>rp_interp := (rp_interp st)\<lparr>break_requested := False\<rparr>\<rparr>"

definition repl_measure :: "repl \<Rightarrow> string \<Rightarrow> nat" where
  "repl_measure st inp = 2 * length inp + (if break_requested (rp_interp st) then 1 else 0)"

text \<open>\<open>repl()\<close>: the loop until EXIT, end of input or a read past the screen
  buffer; it ends because every round either consumes keyboard bytes or, at end of
  input, serves a pending break once (\<open>repl_measure\<close>).\<close>

function repl_loop :: "repl \<Rightarrow> string \<Rightarrow> (repl_stop \<times> repl) option" where
  "repl_loop st inp =
     (if exit_requested (rp_interp st) then Some (Stop_exit, st)
      else
        (case editor_read_line (rp_editor st) inp of
           (Read_eof, ed1, o1, rest) \<Rightarrow>
             (let st1 = st\<lparr>rp_editor := ed1, rp_out := rp_out st @ o1\<rparr> in
              if break_requested (rp_interp st1) then repl_loop (break_notice st1) rest
              else Some (Stop_eof, st1))
         | (Read_overrun, ed1, o1, rest) \<Rightarrow>
             Some (Stop_overrun, st\<lparr>rp_editor := ed1, rp_out := rp_out st @ o1\<rparr>)
         | (Read_line l, ed1, o1, rest) \<Rightarrow>
             (case repl_line (st\<lparr>rp_editor := ed1, rp_out := rp_out st @ o1\<rparr>) l of
                None \<Rightarrow> None
              | Some st2 \<Rightarrow> repl_loop st2 rest)))"
  by pat_completeness auto
termination
  by (relation "measure (\<lambda>(st, inp). repl_measure st inp)")
    (auto simp: repl_measure_def neq_Nil_conv break_notice_def repl_print_def case_prod_beta
      dest!: read_line_rest)

declare repl_loop.simps [simp del]

definition repl :: "(nat \<times> nat) option \<Rightarrow> fsys \<Rightarrow> mem_state \<Rightarrow> interp \<Rightarrow> string \<Rightarrow> (repl_stop \<times> repl) option" where
  "repl ws fs m it inp = repl_loop (repl_start ws fs m it) inp"

text \<open>The invariant of the REPL state: a valid screen and a sorted program.\<close>

definition repl_ok :: "repl \<Rightarrow> bool" where
  "repl_ok st \<longleftrightarrow> editor_ok (rp_editor st) \<and> program_ok (program (rp_interp st))"

text \<open>The unfolding of the run loop, for evaluation.\<close>

declare run_loop.simps [code]

section \<open>Lemmas\<close>

lemma break_notice_flag [simp]: "break_requested (rp_interp (break_notice st)) = False"
  by (simp add: break_notice_def repl_print_def case_prod_beta)

lemma run_body_program: "program (run_body it) = program it"
  using execute_line_ok [of it "current_text it"]
  by (simp add: run_body_def Let_def stmt_ok_def)

lemma run_fuel_program: "run_fuel n it = Some it' \<Longrightarrow> program it' = program it"
proof (induction n arbitrary: it)
  case 0
  then show ?case by (cases "loop_cond it") (simp_all add: run_fuel_0)
next
  case (Suc n)
  then show ?case by (cases "loop_cond it") (simp_all add: run_fuel_Suc run_body_program)
qed

lemma interpreter_run_program: "interpreter_run it = Some it' \<Longrightarrow> program it' = program it"
  using run_fuel_complete [of "run_start (it)"] run_fuel_program
  by (fastforce simp: interpreter_run_def run_start_def split: if_splits)

lemma program_add_line_ok: "program_ok p \<Longrightarrow> program_ok (program_add_line p n t)"
  by (simp add: program_add_line_def Let_def program_ok_delete insert_line_ok deleted_absent)

lemma load_lines_ok: "program_ok (program it) \<Longrightarrow> program_ok (program (foldl load_line it cs))"
  by (induction cs arbitrary: it)
    (auto simp: load_line_def program_add_line_ok split: option.split prod.split)

lemma interpreter_load_ok:
  "program_ok (program it) \<Longrightarrow> program_ok (program (fst (interpreter_load fs it name)))"
  by (auto simp: interpreter_load_def interpreter_new_def program_clear_def load_lines_ok
      split: option.split)

lemma execute_immediate_ok:
  "program_ok (program it) \<Longrightarrow> execute_immediate_command fs it l = Some (it', fs') \<Longrightarrow>
   program_ok (program it')"
  using interpreter_run_program [of it] interpreter_list_fields execute_line_ok [of it l]
    interpreter_load_ok [of it fs]
  by (auto simp: execute_immediate_command_def Let_def interpreter_new_def program_clear_def
      interpreter_save_def stmt_ok_def split: prod.splits if_splits option.splits)

lemma editor_plot_ok: "editor_ok ed \<Longrightarrow> editor_ok (fst (editor_plot ed x y ch))"
  by (simp add: editor_plot_def editor_ok_def)

lemma editor_poke_char_ok: "editor_ok ed \<Longrightarrow> editor_ok (fst (editor_poke_char ed a v))"
  by (simp add: editor_poke_char_def Let_def editor_plot_ok)

lemma show_event_ok: "editor_ok ed \<Longrightarrow> editor_ok (fst (show_event ed e))"
  by (cases e)
    (simp_all add: case_prod_beta editor_print_ok editor_set_background_color_def editor_poke_char_ok
      editor_plot_ok)

lemma show_events_ok: "editor_ok ed \<Longrightarrow> editor_ok (fst (show_events ed es))"
  by (induction es arbitrary: ed) (simp_all add: case_prod_beta show_event_ok)

lemma show_new_ok:
  "editor_ok (rp_editor st) \<Longrightarrow> program_ok (program it) \<Longrightarrow> repl_ok (show_new st it)"
  using show_events_ok by (simp add: show_new_def repl_ok_def case_prod_beta)

lemma repl_print_ok: "repl_ok st \<Longrightarrow> repl_ok (repl_print st s)"
  using editor_print_ok by (simp add: repl_print_def repl_ok_def case_prod_beta)

lemma repl_line_ok: "repl_ok st \<Longrightarrow> repl_line st l = Some st' \<Longrightarrow> repl_ok st'"
  using execute_immediate_ok [of "rp_interp st" "rp_fs st" l] show_new_ok [of st] repl_print_ok
  by (auto simp: repl_line_def repl_ok_def Let_def program_add_line_ok
      split: prod.splits if_splits option.splits)

lemma break_notice_exit [simp]:
  "exit_requested (rp_interp (break_notice st)) = exit_requested (rp_interp st)"
  by (simp add: break_notice_def repl_print_def case_prod_beta)

lemma editor_read_line_Nil: "editor_read_line ed [] = (Read_eof, ed, [], [])"
  by (simp add: editor_read_line_def)

lemma repl_loop_Nil:
  "\<not> exit_requested (rp_interp st) \<Longrightarrow> \<exists>st'. repl_loop st [] = Some (Stop_eof, st')"
proof -
  assume nex: "\<not> exit_requested (rp_interp st)"
  let ?st1 = "st\<lparr>rp_editor := rp_editor st, rp_out := rp_out st @ []\<rparr>"
  have "\<not> break_requested (rp_interp (break_notice ?st1))" "\<not> exit_requested (rp_interp (break_notice ?st1))"
    using nex by simp_all
  then have "\<exists>st'. repl_loop (break_notice ?st1) [] = Some (Stop_eof, st')"
    by (subst repl_loop.simps) (simp add: editor_read_line_Nil)
  then show ?thesis using nex
    by (subst repl_loop.simps) (simp add: editor_read_line_Nil)
qed

lemma editor_clear_screen_ok: "editor_ok ed \<Longrightarrow> editor_ok (fst (editor_clear_screen ed))"
  by (simp add: editor_clear_screen_def editor_ok_def)

lemma repl_start_ok:
  assumes "editor_ok (editor_init ws)" "program_ok (program it)"
  shows "repl_ok (repl_start ws fs m it)"
proof -
  have "editor_ok (fst (editor_clear_screen (editor_init ws)))"
    using assms(1) by (rule editor_clear_screen_ok)
  then show ?thesis using assms(2) unfolding repl_start_def Let_def case_prod_beta
    by (intro repl_print_ok) (simp add: repl_ok_def)
qed

lemma skip_blanks_nat_digits: "skip_blanks (nat_digits n @ r) = nat_digits n @ r"
  using nat_digits_hd_digit [of n] nat_digits_not_Nil [of n]
  by (cases "nat_digits n") (auto simp: skip_blanks_def c_isdigit_def)

section \<open>Properties of the REPL\<close>

text \<open>
  C13: the REPL keeps its state valid up to EXIT: from a valid screen and a sorted
  program, every run of the loop that ends by EXIT (program lines typed, immediate
  commands, RUN, LIST, LOAD, SAVE, NEW, their output shown through the display
  interface) ends with the cursor on the screen, the screen buffer of the right
  size and the program still sorted.
\<close>

theorem repl_loop_keeps_invariant:
  "repl_loop st inp = Some (Stop_exit, st') \<Longrightarrow> repl_ok st \<Longrightarrow> repl_ok st'"
proof (induction "length inp" arbitrary: st inp rule: less_induct)
  case less
  show ?case
  proof (cases "exit_requested (rp_interp st)")
    case True
    then show ?thesis using less.prems by (subst (asm) repl_loop.simps) simp
  next
    case nex: False
    obtain r ed1 o1 rest where rd: "editor_read_line (rp_editor st) inp = (r, ed1, o1, rest)"
      by (cases "editor_read_line (rp_editor st) inp") auto
    have rr: "(r = Read_eof \<longrightarrow> rest = []) \<and> (r \<noteq> Read_eof \<longrightarrow> length rest < length inp)"
      using read_line_rest [of r ed1 o1 rest "rp_editor st" inp] rd by simp
    let ?st1 = "st\<lparr>rp_editor := ed1, rp_out := rp_out st @ o1\<rparr>"
    have loop: "repl_loop st inp =
      (case r of
         Read_eof \<Rightarrow> (if break_requested (rp_interp st) then repl_loop (break_notice ?st1) rest
                      else Some (Stop_eof, ?st1))
       | Read_overrun \<Rightarrow> Some (Stop_overrun, ?st1)
       | Read_line l \<Rightarrow> (case repl_line ?st1 l of None \<Rightarrow> None | Some st2 \<Rightarrow> repl_loop st2 rest))"
      using nex rd by (simp only: repl_loop.simps [of st inp]) (simp split: read_outcome.split)
    show ?thesis
    proof (cases r)
      case Read_eof
      then have "rest = []" using rr by simp
      then show ?thesis using less.prems(1) loop Read_eof repl_loop_Nil [of "break_notice ?st1"] nex
        by (auto split: if_splits)
    next
      case Read_overrun
      then show ?thesis using less.prems(1) loop by simp
    next
      case (Read_line l)
      have "editor_ok ed1"
        using read_line_inv [of "rp_editor st" inp] less.prems(2) rd Read_line
        by (simp add: repl_ok_def editor_ok_pending)
      then have ok1: "repl_ok ?st1" using less.prems(2) by (simp add: repl_ok_def)
      obtain st2 where st2: "repl_line ?st1 l = Some st2" "repl_loop st2 rest = Some (Stop_exit, st')"
        using less.prems(1) loop Read_line by (auto split: option.splits)
      have "repl_ok st2" using repl_line_ok [OF ok1 st2(1)] .
      moreover have "length rest < length inp" using rr Read_line by simp
      ultimately show ?thesis using less.hyps st2(2) by blast
    qed
  qed
qed


lemma repl_loop_keeps_invariant_witness:
  "\<exists>st'. repl_loop \<lparr>rp_interp = interpreter_init\<lparr>editor := Some \<lparr>cols = 16, rows = 2\<rparr>\<rparr>, rp_editor = editor_init (Some (2, 16)),
        rp_fs = \<lparr>files = \<lambda>_. None, writable = \<lambda>_. True\<rparr>, rp_out = [], rp_err = []\<rparr> (''10 PRINT 1'' @ [CR] @ ''EXIT'' @ [CR]) = Some (Stop_exit, st') \<and> repl_ok st'"
proof -
  let ?st = "\<lparr>rp_interp = interpreter_init\<lparr>editor := Some \<lparr>cols = 16, rows = 2\<rparr>\<rparr>, rp_editor = editor_init (Some (2, 16)),
        rp_fs = \<lparr>files = \<lambda>_. None, writable = \<lambda>_. True\<rparr>, rp_out = [], rp_err = []\<rparr>"
  have "map_option fst (repl_loop ?st (''10 PRINT 1'' @ [CR] @ ''EXIT'' @ [CR])) = Some Stop_exit"
    by code_simp
  then obtain st' where st': "repl_loop ?st (''10 PRINT 1'' @ [CR] @ ''EXIT'' @ [CR]) = Some (Stop_exit, st')"
    by auto
  have "repl_ok ?st" by (simp add: repl_ok_def editor_init_def get_window_size_def editor_ok_def interpreter_init_def)
  then show ?thesis using repl_loop_keeps_invariant [OF st'] st' by blast
qed

text \<open>From the start of \<open>repl()\<close>: the banner on a valid screen keeps the invariant,
  so every session that ends by EXIT ends in a valid state.\<close>

lemma repl_keeps_screen_and_program:
  "editor_ok (editor_init ws) \<Longrightarrow> program_ok (program it) \<Longrightarrow>
   repl ws fs m it inp = Some (Stop_exit, st') \<Longrightarrow>
   editor_ok (rp_editor st') \<and> program_ok (program (rp_interp st'))"
  using repl_loop_keeps_invariant [of "repl_start ws fs m it" inp st'] repl_start_ok [of ws it fs m]
  by (simp add: repl_def repl_ok_def)

text \<open>
  a session on a 2 x 16 screen: typing \<open>10 PRINT "HI"\<close>, \<open>RUN\<close>, \<open>LIST\<close> and
  \<open>EXIT\<close> stores the line, runs it (printing \<open>HI\<close>), lists it, and ends the REPL
  by EXIT.
\<close>

theorem repl_session_example:
  "(case repl_loop \<lparr>rp_interp = interpreter_init\<lparr>editor := Some \<lparr>cols = 16, rows = 2\<rparr>\<rparr>, rp_editor = editor_init (Some (2, 16)),
        rp_fs = \<lparr>files = \<lambda>_. None, writable = \<lambda>_. True\<rparr>, rp_out = [], rp_err = []\<rparr>
       (''10 PRINT \"HI\"'' @ [CR] @ ''RUN'' @ [CR] @ ''LIST'' @ [CR] @ ''EXIT'' @ [CR]) of
     Some (Stop_exit, st) \<Rightarrow>
       program (rp_interp st) = [\<lparr>line_number = 10, line_text = ''PRINT \"HI\"''\<rparr>] \<and>
       printed (events (rp_interp st)) = ''HI'' @ [LF] @ ''10 PRINT \"HI\"'' @ [LF]
   | _ \<Rightarrow> False)"
  by code_simp

text \<open>
  C34: the line number of a REPL line is \<open>strtol\<close>'s \<open>long\<close> stored into an
  \<open>int\<close>: for every digit string, the number modulo \<open>2^32\<close> read as signed
  (\<open>4294967306\<close> is line 10, \<open>2147483648\<close> a negative number, so an immediate
  command), and -1 beyond \<open>LONG_MAX\<close>, which \<open>strtol\<close> clamps to; the rest
  is the text after the blanks that follow the digits.
\<close>

theorem extract_line_number_wraps:
  assumes "r = [] \<or> \<not> c_isdigit (hd r)"
  shows "extract_line_number (nat_digits n @ r) =
           (if n \<le> nat LONG_MAX then sint (word_of_nat n :: 32 word) else -1, Some (skip_blanks r))"
proof -
  have d: "c_isdigit (c_char_at (nat_digits n @ r) 0)"
    using nat_digits_hd_digit [of n] nat_digits_not_Nil [of n]
    by (cases "nat_digits n") (simp_all add: c_char_at_def)
  then show ?thesis using nat_digits_split [OF assms, of n] strtol_nat_digits_wrap [of n]
    by (simp add: extract_line_number_def skip_blanks_nat_digits Let_def)
qed

lemma extract_line_number_wraps_witness:
  "extract_line_number (''2147483648'' @ '' PRINT 1'') = (-2147483648, Some ''PRINT 1'')"
proof -
  have d: "''2147483648'' = nat_digits 2147483648" by code_simp
  have r: "'' PRINT 1'' = [] \<or> \<not> c_isdigit (hd '' PRINT 1'')" by code_simp
  have s: "skip_blanks '' PRINT 1'' = ''PRINT 1''" by code_simp
  have h: "(if (2147483648::nat) \<le> nat LONG_MAX then sint (word_of_nat 2147483648 :: 32 word) else -1) = -2147483648"
    by (simp add: LONG_MAX_def)
  show ?thesis using extract_line_number_wraps [OF r, of 2147483648] d s h by simp
qed

text \<open>
  a line LIST prints, typed back into the REPL, is stored as the same line:
  \<open>extract_line_number\<close> reads back the number and the text of \<open>"%d %s"\<close> for every
  line a file may hold.
\<close>

theorem list_line_reentered:
  assumes "file_line_ok l"
  shows "extract_line_number (butlast (list_line_text l)) = (line_number l, Some (line_text l))"
proof -
  define n where "n = nat (line_number l)"
  have n: "int n = line_number l" "n \<le> nat INT_MAX" using assms by (auto simp: file_line_ok_def n_def)
  obtain c t where t: "line_text l = c # t" using assms by (cases "line_text l") (auto simp: file_line_ok_def)
  have c: "c \<noteq> CHR '' ''" "c \<noteq> TAB" using assms t by (auto simp: file_line_ok_def c_isspace_def)
  have b: "butlast (list_line_text l) = nat_digits n @ CHR '' '' # line_text l"
    using assms by (simp add: list_line_text_def int_to_string_def n_def file_line_ok_def butlast_append)
  have d: "c_isdigit (c_char_at (nat_digits n @ CHR '' '' # line_text l) 0)"
    using nat_digits_hd_digit [of n] nat_digits_not_Nil [of n]
    by (cases "nat_digits n") (simp_all add: c_char_at_def)
  have sb: "skip_blanks (CHR '' '' # line_text l) = line_text l" using c t by (simp add: skip_blanks_def)
  have "\<not> c_isdigit (CHR '' '')" by (simp add: c_isdigit_def)
  then show ?thesis using b d nat_digits_split [of "CHR '' '' # line_text l" n] strtol_nat_digits [OF n(2)] n(1) sb
    by (simp add: extract_line_number_def skip_blanks_nat_digits Let_def)
qed

lemma list_line_reentered_witness:
  "extract_line_number (butlast (list_line_text \<lparr>line_number = 10, line_text = ''PRINT 1''\<rparr>)) = (10, Some ''PRINT 1'')"
proof -
  have "file_line_ok \<lparr>line_number = 10, line_text = ''PRINT 1''\<rparr>" by code_simp
  then show ?thesis using list_line_reentered by fastforce
qed

end
