(* ===== verification/CommandLine.thy ===== *)
theory CommandLine
  imports Repl
begin

text \<open>
  The command line of \<open>src/cfbasic.c\<close> (\<open>main\<close>, \<open>print_usage\<close>) and the
  memory-size argument of \<open>-M\<close> (\<open>parse_memory_size\<close> of \<open>src/utils.c\<close>).
  \<open>strtod\<close> is glibc's: leading white space, an optional sign, then \<open>INF\<close> or
  \<open>INFINITY\<close>, \<open>NAN\<close> with an optional \<open>(chars)\<close>, a hexadecimal constant
  (\<open>0x\<close>, hex digits with an optional point, an optional binary exponent \<open>p\<close>) or
  a decimal one (digits with an optional point, an optional exponent \<open>e\<close>); with
  no conversion the value is 0 and the end pointer is the argument itself. A finite
  value is the exact real the constant denotes (IEEE rounding is not modelled).
  Converting a double that is infinite, NaN or at least \<open>2^64\<close> to \<open>size_t\<close> is
  undefined in C; \<open>parse_memory_size\<close> returns \<open>None\<close> there.
\<close>

section \<open>\<open>strtod\<close>\<close>

datatype c_double = Finite real | Infinity bool | Not_a_number

definition c_isxdigit :: "char \<Rightarrow> bool" where
  "c_isxdigit c \<longleftrightarrow> c_isdigit c \<or> (65::nat) \<le> of_char (c_toupper c) \<and> of_char (c_toupper c) \<le> (70::nat)"

definition hex_value :: "string \<Rightarrow> nat" where
  "hex_value ds =
     foldl (\<lambda>n c. 16 * n + (if c_isdigit c then of_char c - 48 else of_char (c_toupper c) - 55)) 0 ds"

text \<open>The prefix \<open>p\<close> (upper case) of \<open>s\<close>, letters in any case.\<close>

definition upper_prefix :: "string \<Rightarrow> string \<Rightarrow> bool" where
  "upper_prefix p s \<longleftrightarrow> length p \<le> length s \<and> map c_toupper (take (length p) s) = p"

text \<open>An exponent after a marker of \<open>ms\<close>: consumed only when a digit follows the
  marker and its optional sign.\<close>

definition scan_exponent :: "char list \<Rightarrow> string \<Rightarrow> int \<times> string" where
  "scan_exponent ms s =
     (case s of
        c # r \<Rightarrow>
          if c \<in> set ms then
            (let (sg, ds) = (case r of d # r' \<Rightarrow> if d = CHR ''-'' then (-1, r')
                                                  else if d = CHR ''+'' then (1, r') else (1, r)
                               | [] \<Rightarrow> (1, []));
                 e = takeWhile c_isdigit ds
             in if e = [] then (0, s) else (sg * int (digits_value e), dropWhile c_isdigit ds))
          else (0, s)
      | [] \<Rightarrow> (0, []))"

text \<open>The mantissa \<open>digits [. digits]\<close> in a radix: the integer and fraction digits
  and the rest.\<close>

definition scan_mantissa :: "(char \<Rightarrow> bool) \<Rightarrow> string \<Rightarrow> string \<times> string \<times> string" where
  "scan_mantissa isd s =
     (let ip = takeWhile isd s; r1 = dropWhile isd s in
      case r1 of
        c # r \<Rightarrow> if c = CHR ''.'' then (ip, takeWhile isd r, dropWhile isd r) else (ip, [], r1)
      | [] \<Rightarrow> (ip, [], []))"

definition scan_nan_tail :: "string \<Rightarrow> string" where
  "scan_nan_tail s =
     (case s of
        c # r \<Rightarrow>
          if c = CHR ''('' then
            (let r' = dropWhile (\<lambda>x. c_isalnum x \<or> x = CHR ''_'') r in
             if c_char_at r' 0 = CHR '')'' then tl r' else s)
          else s
      | [] \<Rightarrow> [])"

text \<open>The subject sequence after the sign: \<open>None\<close> when there is none.\<close>

definition strtod_unsigned :: "string \<Rightarrow> (c_double \<times> string) option" where
  "strtod_unsigned s =
     (if upper_prefix ''INFINITY'' s then Some (Infinity False, drop 8 s)
      else if upper_prefix ''INF'' s then Some (Infinity False, drop 3 s)
      else if upper_prefix ''NAN'' s then Some (Not_a_number, scan_nan_tail (drop 3 s))
      else if upper_prefix ''0X'' s \<and>
              (let (ip, fp, r) = scan_mantissa c_isxdigit (drop 2 s) in ip @ fp \<noteq> [])
      then (let (ip, fp, r) = scan_mantissa c_isxdigit (drop 2 s);
                (e, r') = scan_exponent ''pP'' r
            in Some (Finite (real (hex_value (ip @ fp)) * power_int 2 (e - 4 * int (length fp))), r'))
      else (let (ip, fp, r) = scan_mantissa c_isdigit s in
            if ip @ fp = [] then None
            else (let (e, r') = scan_exponent ''eE'' r
                  in Some (Finite (real (digits_value (ip @ fp)) * power_int 10 (e - int (length fp))), r'))))"

definition negate_double :: "c_double \<Rightarrow> c_double" where
  "negate_double v =
     (case v of Finite x \<Rightarrow> Finite (- x) | Infinity n \<Rightarrow> Infinity (\<not> n) | Not_a_number \<Rightarrow> Not_a_number)"

definition strtod :: "string \<Rightarrow> c_double \<times> string" where
  "strtod s =
     (let s1 = dropWhile c_isspace s;
          (neg, s2) = (case s1 of c # r \<Rightarrow> if c = CHR ''-'' then (True, r)
                                         else if c = CHR ''+'' then (False, r) else (False, s1)
                       | [] \<Rightarrow> (False, []))
      in case strtod_unsigned s2 of
           None \<Rightarrow> (Finite 0, s)
         | Some (v, r) \<Rightarrow> (if neg then negate_double v else v, r))"

section \<open>\<open>parse_memory_size\<close>\<close>

text \<open>\<open>(size_t) x\<close>: truncation, defined when the truncated value is representable.\<close>

definition double_to_size :: "c_double \<Rightarrow> 64 word option" where
  "double_to_size v =
     (case v of
        Finite x \<Rightarrow> if -1 < x \<and> x < 2 ^ 64 then Some (word_of_int (c_trunc x)) else None
      | _ \<Rightarrow> None)"

definition memory_multiplier :: "char \<Rightarrow> 64 word option" where
  "memory_multiplier c =
     (let u = c_toupper c in
      if u = CHR ''K'' then Some 1024
      else if u = CHR ''M'' then Some (1024 * 1024)
      else if u = CHR ''G'' then Some (1024 * 1024 * 1024)
      else None)"

definition parse_memory_size :: "string \<Rightarrow> 64 word option" where
  "parse_memory_size s =
     (let (v, e) = strtod s in
      if (case v of Finite x \<Rightarrow> x \<le> 0 | Infinity neg \<Rightarrow> neg | Not_a_number \<Rightarrow> False) then Some 0
      else
        (let m = (if c_char_at e 0 \<noteq> NUL then memory_multiplier (c_char_at e 0) else Some 1) in
         case m of
           None \<Rightarrow> Some 0
         | Some k \<Rightarrow>
             double_to_size (case v of Finite x \<Rightarrow> Finite (x * real (unat k)) | _ \<Rightarrow> v)))"

section \<open>\<open>main\<close>\<close>

definition usage_text :: string where
  "usage_text =
     ''Usage: cfbasic [OPTIONS] [filename]'' @ [LF] @ ''Options:'' @ [LF] @
     ''  -M, --MEM <size>    Set memory limit (e.g., 1G, 512M, 2048K)'' @ [LF] @
     ''  -h, --help          Show this help message'' @ [LF] @
     ''  -v, --version       Show version information'' @ [LF]"

text \<open>The result of the option loop: \<open>return code\<close> with the bytes written to
  \<open>stdout\<close> and \<open>stderr\<close>, the start of the interpreter with the memory limit and
  the file name, or undefined behaviour in the conversion of the \<open>-M\<close> argument.\<close>

datatype cli = Cli_exit int string string | Cli_start "64 word" "string option" | Cli_undefined string

fun parse_args :: "64 word \<Rightarrow> string option \<Rightarrow> string list \<Rightarrow> cli" where
  "parse_args mem_limit fname [] = Cli_start mem_limit fname"
| "parse_args mem_limit fname (a # rest) =
     (if a = ''-M'' \<or> a = ''--MEM'' then
        (case rest of
           v # rest' \<Rightarrow>
             (case parse_memory_size v of
                None \<Rightarrow> Cli_undefined v
              | Some m \<Rightarrow>
                  if m = 0 then Cli_exit 1 [] (''Invalid memory size: '' @ v @ [LF])
                  else parse_args m fname rest')
         | [] \<Rightarrow> Cli_exit 1 usage_text (''Missing memory size argument'' @ [LF]))
      else if a = ''-h'' \<or> a = ''--help'' then Cli_exit 0 usage_text []
      else if a = ''-v'' \<or> a = ''--version'' then Cli_exit 0 (''CFBASIC V1.0'' @ [LF]) []
      else if c_char_at a 0 \<noteq> CHR ''-'' then parse_args mem_limit (Some a) rest
      else Cli_exit 1 usage_text (''Unknown option: '' @ a @ [LF]))"

text \<open>\<open>main\<close> on the arguments after the program name, the terminal size, the
  file system and the keyboard bytes. \<open>None\<close>: a RUN that never ends.\<close>

datatype main_outcome =
  Main_exit int string string | Main_undefined | Main_ran interp | Main_repl repl_stop repl

definition main :: "(nat \<times> nat) option \<Rightarrow> fsys \<Rightarrow> string list \<Rightarrow> string \<Rightarrow> main_outcome option" where
  "main ws fs args inp =
     (case parse_args 1073741824 None args of
        Cli_exit code out err \<Rightarrow> Some (Main_exit code out err)
      | Cli_undefined v \<Rightarrow> Some Main_undefined
      | Cli_start mem_limit fname \<Rightarrow>
          (let m = init_memory mem_limit in
           case fname of
             Some name \<Rightarrow> map_option Main_ran (run_file fs name)
           | None \<Rightarrow> map_option (\<lambda>(r, st). Main_repl r st) (repl ws fs m interpreter_init inp)))"

section \<open>Lemmas\<close>

lemma upper_prefix_digit:
  "c_isdigit c \<Longrightarrow> \<not> c_isdigit (hd p) \<Longrightarrow> p \<noteq> [] \<Longrightarrow> \<not> upper_prefix p (c # s)"
  by (cases p) (auto simp: upper_prefix_def c_toupper_def c_isdigit_def c_islower_def)

lemma c_toupper_eq_X: "c_toupper c = CHR ''X'' \<Longrightarrow> c = CHR ''x'' \<or> c = CHR ''X''"
proof (cases "c_islower c")
  case True
  assume u: "c_toupper c = CHR ''X''"
  have "(of_char c - 32 :: nat) = 88" using of_char_c_toupper_lower [OF True] u by simp
  then have "(of_char c :: nat) = 120" using True by (simp add: c_islower_def)
  then have "char_of (of_char c :: nat) = char_of (120::nat)" by simp
  moreover have "char_of (120::nat) = CHR ''x''" by code_simp
  ultimately show ?thesis by simp
qed (simp add: c_toupper_def)
lemma upper_prefix_0X_digits:
  assumes "r = [] \<or> hd r \<notin> set ''xX''"
  shows "\<not> upper_prefix ''0X'' (nat_digits n @ r)"
proof -
  obtain c cs where ds: "nat_digits n = c # cs" using nat_digits_not_Nil [of n] by (cases "nat_digits n") auto
  show ?thesis
  proof (cases cs)
    case Nil
    then show ?thesis using ds assms c_toupper_eq_X [of "hd r"] by (cases r) (auto simp: upper_prefix_def)
  next
    case (Cons d ds')
    have "c_isdigit d" using nat_digits_isdigit [of d n] ds Cons by simp
    then have "c_toupper d \<noteq> CHR ''X''" by (auto simp: c_toupper_def c_isdigit_def c_islower_def)
    then show ?thesis using ds Cons by (auto simp: upper_prefix_def)
  qed
qed

lemma scan_exponent_other: "r = [] \<or> hd r \<notin> set ms \<Longrightarrow> scan_exponent ms r = (0, r)"
  by (cases r) (auto simp: scan_exponent_def)


lemma strtod_nat_digits:
  assumes "r = [] \<or> (\<not> c_isdigit (hd r) \<and> hd r \<notin> set ''.eExX'')"
  shows "strtod (nat_digits n @ r) = (Finite (real n), r)"
proof -
  obtain c cs where ds: "nat_digits n = c # cs" using nat_digits_not_Nil [of n] by (cases "nat_digits n") auto
  have c: "c_isdigit c" using nat_digits_hd_digit [of n] ds by simp
  then have sp: "\<not> c_isspace c" "c \<noteq> CHR ''-''" "c \<noteq> CHR ''+''"
    using c_isdigit_not_space [of c] by (auto simp: c_isdigit_def)
  have pre: "\<not> upper_prefix ''INFINITY'' (nat_digits n @ r)" "\<not> upper_prefix ''INF'' (nat_digits n @ r)"
    "\<not> upper_prefix ''NAN'' (nat_digits n @ r)"
    using upper_prefix_digit [OF c] ds by (simp_all add: c_isdigit_def)
  have x: "\<not> upper_prefix ''0X'' (nat_digits n @ r)"
    using assms by (intro upper_prefix_0X_digits) auto
  have split: "takeWhile c_isdigit (nat_digits n @ r) = nat_digits n \<and> dropWhile c_isdigit (nat_digits n @ r) = r"
    using assms by (intro nat_digits_split) auto
  have m: "scan_mantissa c_isdigit (nat_digits n @ r) = (nat_digits n, [], r)"
    unfolding scan_mantissa_def Let_def split [THEN conjunct1] split [THEN conjunct2]
    using assms by (cases r) auto
  have e: "scan_exponent ''eE'' r = (0, r)" using assms by (intro scan_exponent_other) auto
  have dv: "digits_value (c # cs) = n" using digits_value_nat_digits [of n] ds by simp
  show ?thesis
    using sp pre x m e ds dv by (simp add: strtod_def strtod_unsigned_def)
qed

lemma parse_memory_size_multiplier:
  assumes "0 < n" "\<not> c_isdigit c" "c \<notin> set ''.eExX''" "c \<noteq> NUL"
  shows "parse_memory_size (nat_digits n @ c # r) =
           (case memory_multiplier c of
              None \<Rightarrow> Some 0
            | Some k \<Rightarrow> if n * unat k < 2 ^ 64 then Some (of_nat (n * unat k)) else None)"
proof -
  have s: "strtod (nat_digits n @ c # r) = (Finite (real n), c # r)"
    using assms by (intro strtod_nat_digits) auto
  show ?thesis
  proof (cases "memory_multiplier c")
    case None
    then show ?thesis using s assms by (simp add: parse_memory_size_def c_char_at_def)
  next
    case (Some k)
    have x: "real n * real (unat k) = real (n * unat k)" by simp
    have t: "c_trunc (real (n * unat k)) = int (n * unat k)"
      by (metis c_trunc_of_int of_int_of_nat_eq)
    have "double_to_size (Finite (real (n * unat k))) =
            (if n * unat k < 2 ^ 64 then Some (of_nat (n * unat k)) else None)"
    proof -
      have "(real (n * unat k) < 2 ^ 64) = (n * unat k < 2 ^ 64)"
        by (metis of_nat_less_iff of_nat_numeral of_nat_power)
      then show ?thesis unfolding double_to_size_def using t
        by (simp add: word_of_int_nat del: of_nat_mult)
    qed
    then show ?thesis using s assms Some x
      by (simp add: parse_memory_size_def c_char_at_def del: of_nat_mult)
  qed
qed

lemma c_toupper_eq_upper:
  assumes "(65::nat) \<le> of_char d" "of_char d \<le> (90::nat)"
  shows "c_toupper c = d \<longleftrightarrow> c = d \<or> of_char c = of_char d + (32::nat)"
proof (cases "c_islower c")
  case True
  then have u: "of_char (c_toupper c) = (of_char c - 32 :: nat)" by (rule of_char_c_toupper_lower)
  have "c_toupper c = d \<longleftrightarrow> of_char (c_toupper c) = (of_char d :: nat)" by (rule of_char_eq_iff [symmetric])
  also have "\<dots> \<longleftrightarrow> of_char c = of_char d + (32::nat)" using u True by (auto simp: c_islower_def)
  finally show ?thesis using True assms by (auto simp: c_islower_def)
next
  case False
  then show ?thesis using assms by (auto simp: c_toupper_def c_islower_def)
qed

lemma memory_multiplier_values:
  "memory_multiplier c =
     (if c = CHR ''K'' \<or> c = CHR ''k'' then Some 1024
      else if c = CHR ''M'' \<or> c = CHR ''m'' then Some 1048576
      else if c = CHR ''G'' \<or> c = CHR ''g'' then Some 1073741824 else None)"
proof -
  have k: "c_toupper c = CHR ''K'' \<longleftrightarrow> c = CHR ''K'' \<or> c = CHR ''k''"
    using c_toupper_eq_upper [of "CHR ''K''" c] of_char_eq_iff [of c "CHR ''k''", where ?'a = nat] by simp
  have m: "c_toupper c = CHR ''M'' \<longleftrightarrow> c = CHR ''M'' \<or> c = CHR ''m''"
    using c_toupper_eq_upper [of "CHR ''M''" c] of_char_eq_iff [of c "CHR ''m''", where ?'a = nat] by simp
  have g: "c_toupper c = CHR ''G'' \<longleftrightarrow> c = CHR ''G'' \<or> c = CHR ''g''"
    using c_toupper_eq_upper [of "CHR ''G''" c] of_char_eq_iff [of c "CHR ''g''", where ?'a = nat] by simp
  show ?thesis unfolding memory_multiplier_def Let_def k m g by simp
qed

text \<open>
  C39: \<open>-M\<close> with a positive decimal number and a suffix: \<open>K\<close>, \<open>M\<close> or \<open>G\<close> in
  either case scales the number by \<open>1024\<close>, \<open>1024^2\<close> or \<open>1024^3\<close> and whatever
  follows the suffix is ignored (\<open>1GB\<close> is \<open>1G\<close>); any other suffix that is not part of the number makes the size
  invalid (0); a product of \<open>2^64\<close> or more makes the conversion to \<open>size_t\<close>
  undefined.
\<close>

theorem parse_memory_size_digits:
  assumes "0 < n" "\<not> c_isdigit c" "c \<notin> set ''.eExX''" "c \<noteq> NUL"
  shows "parse_memory_size (nat_digits n @ c # r) =
           (let k = (if c = CHR ''K'' \<or> c = CHR ''k'' then 1024
                     else if c = CHR ''M'' \<or> c = CHR ''m'' then 1048576
                     else if c = CHR ''G'' \<or> c = CHR ''g'' then 1073741824 else 0 :: nat)
            in if k = 0 then Some 0 else if n * k < 2 ^ 64 then Some (of_nat (n * k)) else None)"
  using parse_memory_size_multiplier [OF assms, of r] memory_multiplier_values [of c]
  by (simp add: Let_def split: if_splits)

lemma parse_memory_size_digits_witness: "parse_memory_size ''512MB'' = Some 536870912"
proof -
  have d: "nat_digits 512 = ''512''" by code_simp
  show ?thesis
    using parse_memory_size_digits [of 512 "CHR ''M''" "''B''"] d by (simp add: c_isdigit_def)
qed

lemma parse_args_names:
  "\<forall>a\<in>set args. c_char_at a 0 \<noteq> CHR ''-'' \<Longrightarrow>
   parse_args l f args = Cli_start l (if args = [] then f else Some (last args))"
proof (induction args arbitrary: f)
  case Nil
  then show ?case by simp
next
  case (Cons a args)
  have d: "c_char_at a 0 \<noteq> CHR ''-''" using Cons.prems by simp
  then have "a \<noteq> ''-M'' \<and> a \<noteq> ''--MEM'' \<and> a \<noteq> ''-h'' \<and> a \<noteq> ''--help'' \<and> a \<noteq> ''-v'' \<and> a \<noteq> ''--version''"
    by auto
  then have "parse_args l f (a # args) = parse_args l (Some a) args"
    using d by (simp only: parse_args.simps(2) if_False if_True simp_thms)
  then show ?case using Cons.IH [of "Some a"] Cons.prems by simp
qed


text \<open>
  C24: without options \<open>main\<close> starts the REPL with the default limit of 1 GB when
  no argument is given, and otherwise loads and runs the last file named (each
  name replaces the one before).
\<close>

theorem main_dispatch:
  assumes "\<forall>a\<in>set args. c_char_at a 0 \<noteq> CHR ''-''"
  shows "main ws fs args inp =
           (if args = [] then map_option (\<lambda>(r, st). Main_repl r st)
                                (repl ws fs (init_memory 1073741824) interpreter_init inp)
            else map_option Main_ran (run_file fs (last args)))"
  using parse_args_names [OF assms, of 1073741824 None] by (simp add: main_def)

lemma main_dispatch_witness:
  "main None \<lparr>files = (\<lambda>_. None), writable = (\<lambda>_. False)\<rparr> [''a.bas'', ''b.bas''] [] =
   map_option Main_ran (run_file \<lparr>files = (\<lambda>_. None), writable = (\<lambda>_. False)\<rparr> ''b.bas'')"
  using main_dispatch [of "[''a.bas'', ''b.bas'']" None "\<lparr>files = (\<lambda>_. None), writable = (\<lambda>_. False)\<rparr>" "[]"]
  by simp

text \<open>The option loop on examples: \<open>-M 512M\<close> with a file, \<open>--MEM 1GB\<close> (the
  \<open>B\<close> is ignored), \<open>-M 0.5\<close> (truncated to 0, invalid), \<open>-M 20000000000G\<close>
  (beyond \<open>size_t\<close>: undefined), a missing size and an unknown option.\<close>

lemma command_line_examples:
  "parse_args 1073741824 None [''-M'', ''512M'', ''prog.bas''] = Cli_start 536870912 (Some ''prog.bas'') \<and>
   parse_args 1073741824 None [''--MEM'', ''1GB''] = Cli_start 1073741824 None \<and>
   parse_args 1073741824 None [''-M'', ''0.5''] = Cli_exit 1 [] (''Invalid memory size: 0.5'' @ [LF]) \<and>
   parse_args 1073741824 None [''-M'', ''20000000000G''] = Cli_undefined ''20000000000G'' \<and>
   parse_args 1073741824 None [''-M''] = Cli_exit 1 usage_text (''Missing memory size argument'' @ [LF]) \<and>
   parse_args 1073741824 None [''-x'', ''a.bas''] = Cli_exit 1 usage_text (''Unknown option: -x'' @ [LF])"
  by code_simp

end
