(* ===== verification/Terminal.thy ===== *)
theory Terminal
  imports Prelude
begin

text \<open>
  Terminal raw mode of \<open>src/editor.c\<close> (\<open>editor_enable_raw_mode\<close>,
  \<open>editor_disable_raw_mode\<close>). The \<open>struct termios\<close> of Linux as a record of its
  four 32-bit flag words and the control characters \<open>c_cc\<close>; the flag values
  are those of the Linux headers. The state is the terminal's attributes and the
  static \<open>orig_termios\<close> of \<open>editor.c\<close>, which is zero before the first
  successful \<open>tcgetattr\<close>. \<open>tcgetattr\<close> may fail (the flag \<open>ok\<close>);
  \<open>tcsetattr\<close> is taken to succeed.
\<close>

unbundle bit_operations_syntax

record termios =
  c_iflag :: "32 word"
  c_oflag :: "32 word"
  c_cflag :: "32 word"
  c_lflag :: "32 word"
  c_cc :: "8 word list"

definition BRKINT :: "32 word" where "BRKINT = 0x2"
definition ICRNL :: "32 word" where "ICRNL = 0x100"
definition INPCK :: "32 word" where "INPCK = 0x10"
definition ISTRIP :: "32 word" where "ISTRIP = 0x20"
definition IXON :: "32 word" where "IXON = 0x400"
definition OPOST :: "32 word" where "OPOST = 0x1"
definition CS8 :: "32 word" where "CS8 = 0x30"
definition ECHO :: "32 word" where "ECHO = 0x8"
definition ICANON :: "32 word" where "ICANON = 0x2"
definition IEXTEN :: "32 word" where "IEXTEN = 0x8000"
definition ISIG :: "32 word" where "ISIG = 0x1"
definition VTIME :: nat where "VTIME = 5"
definition VMIN :: nat where "VMIN = 6"

record tty =
  tty_attr :: termios
  orig_termios :: termios

text \<open>The attributes \<open>editor_enable_raw_mode\<close> builds from \<open>orig_termios\<close>.\<close>

definition raw_attr :: "termios \<Rightarrow> termios" where
  "raw_attr t =
     t\<lparr>c_iflag := c_iflag t AND NOT (BRKINT OR ICRNL OR INPCK OR ISTRIP OR IXON),
       c_oflag := c_oflag t AND NOT OPOST,
       c_cflag := c_cflag t OR CS8,
       c_lflag := c_lflag t AND NOT (ECHO OR ICANON OR IEXTEN OR ISIG),
       c_cc := (c_cc t)[VMIN := 1, VTIME := 0]\<rparr>"

definition editor_enable_raw_mode :: "bool \<Rightarrow> tty \<Rightarrow> tty" where
  "editor_enable_raw_mode ok st =
     (if \<not> ok then st
      else (let orig = tty_attr st in st\<lparr>orig_termios := orig, tty_attr := raw_attr orig\<rparr>))"

definition editor_disable_raw_mode :: "tty \<Rightarrow> tty" where
  "editor_disable_raw_mode st = st\<lparr>tty_attr := orig_termios st\<rparr>"

section \<open>Lemmas\<close>

text \<open>Leaving raw mode restores the attributes the terminal had before entering it
  when \<open>tcgetattr\<close> succeeded; when it failed, the terminal gets whatever
  \<open>orig_termios\<close> holds (zero before any successful call).\<close>

lemma raw_mode_restores:
  "tty_attr (editor_disable_raw_mode (editor_enable_raw_mode ok st)) =
     (if ok then tty_attr st else orig_termios st)"
  by (simp add: editor_disable_raw_mode_def editor_enable_raw_mode_def Let_def)

text \<open>In raw mode the terminal neither echoes nor buffers lines, does not raise
  signals for control keys, sends output unprocessed and uses 8-bit characters; the
  other flags are those it had.\<close>

lemma raw_attr_flags:
  "c_lflag (raw_attr t) AND (ECHO OR ICANON OR IEXTEN OR ISIG) = 0 \<and>
   c_iflag (raw_attr t) AND (BRKINT OR ICRNL OR INPCK OR ISTRIP OR IXON) = 0 \<and>
   c_oflag (raw_attr t) AND OPOST = 0 \<and>
   c_cflag (raw_attr t) AND CS8 = CS8 \<and>
   c_lflag (raw_attr t) AND NOT (ECHO OR ICANON OR IEXTEN OR ISIG) =
     c_lflag t AND NOT (ECHO OR ICANON OR IEXTEN OR ISIG)"
  unfolding raw_attr_def by (simp_all add: bit_eq_iff bit_simps) blast

lemma raw_attr_cc:
  "VMIN < length (c_cc t) \<Longrightarrow> VTIME < length (c_cc t) \<Longrightarrow>
   c_cc (raw_attr t) ! VMIN = 1 \<and> c_cc (raw_attr t) ! VTIME = 0"
  by (simp add: raw_attr_def VMIN_def VTIME_def)

end
