(* ===== verification/Spec2Isabelle.thy ===== *)
theory Spec2Isabelle
  imports CommandLine Terminal
begin

text \<open>
  \<^bold>\<open>A verification development of CFBasic.\<close>
  CFBasic (\<open>src/\<close>) is a line-numbered BASIC interpreter in C: a tokenizer
  (\<open>lexer.c\<close>), an interpreter core (\<open>interpreter.c\<close>: program store, variable
  store, control stacks, expression evaluator, statement executor, run loop), a
  read-eval-print loop and command-line front end (\<open>cfbasic.c\<close>), a terminal
  screen editor (\<open>editor.c\<close>) and helpers for strings and a budgeted allocator
  (\<open>utils.c\<close>). A source line flows from the REPL to the tokenizer; the executor
  walks its tokens, calls the evaluator on expressions, and acts on the stores, the
  64 KB RAM image, the display and the current-line cursor; the run loop executes
  line after line and detects jumps.

  \<^bold>\<open>Theories.\<close> Each theory shallowly embeds one part, in the order of the code.
  \<^item> \<open>Prelude\<close>: ctype.h classes (\<open>c_isdigit\<close>, \<open>c_toupper\<close>, ...), the x86-64
    casts of a double (\<open>double_to_int\<close>, \<open>double_to_u16\<close>, \<open>double_to_u8\<close>),
    the NUL-padded byte access \<open>c_char_at\<close>, the lemma collections.
  \<^item> \<open>Utils\<close>: \<open>str_upper\<close>, \<open>str_compare_nocase\<close>, \<open>str_duplicate\<close>,
    \<open>warning\<close>, \<open>read_line\<close> (\<open>getline\<close>) and the allocation budget
    (\<open>safe_malloc\<close>, \<open>safe_realloc\<close>, \<open>safe_free\<close> on a record of the two
    \<open>size_t\<close> globals as 64-bit words).
  \<^item> \<open>Lexer\<close>: the \<open>Lexer\<close> struct as a record, \<open>TokenType\<close> as a datatype
    with the 83 constructors of \<open>lexer.h\<close>, one definition per reader
    (\<open>read_number\<close>, \<open>read_string\<close>, \<open>read_identifier\<close>, the single-character
    switch), \<open>lexer_next_token\<close> and \<open>lexer_peek_token\<close>; the scanning loops are
    functions terminating on the unread length \<open>rem\<close>.
  \<^item> \<open>ProgramStore\<close>, \<open>Variables\<close>, \<open>Stacks\<close>: the linked lists of
    \<open>interpreter.c\<close> as HOL lists, head first, with an abstraction to a map
    (\<open>program_map\<close>, \<open>vars_map\<close>) and their invariants (ascending line numbers;
    names distinct up to case).
  \<^item> \<open>Eval\<close>: the \<open>Value\<close> struct and the mutually recursive
    \<open>evaluate_factor\<close> / \<open>evaluate_expression\<close> with its operator loop, with fuel;
    \<open>eval_expression\<close> is the total evaluator.
  \<^item> \<open>Format\<close>: \<open>printf\<close> conversions \<open>%d\<close> and \<open>%g\<close> as the program uses them.
  \<^item> \<open>Interp\<close>: \<open>struct Interpreter\<close> as the record \<open>interp\<close>, output as a list
    of \<open>display_event\<close>s, \<open>basic_print\<close>, \<open>interpreter_init\<close>,
    \<open>interpreter_new\<close>, \<open>interpreter_list\<close>.
  \<^item> \<open>Exec\<close>: \<open>interpreter_execute_line\<close>: one definition per statement branch
    (\<open>print_loop\<close>, \<open>exec_if\<close>, \<open>exec_goto\<close>, \<open>exec_let\<close>, \<open>exec_poke\<close>,
    \<open>exec_plot\<close>, \<open>exec_draw\<close> with the Bresenham loop \<open>draw_loop\<close>), the
    dispatcher \<open>exec_statement\<close> and the token loop \<open>exec_statements\<close>.
  \<^item> \<open>Run\<close>: \<open>interpreter_run\<close>: one round \<open>run_body\<close>, the loop
    \<open>run_loop\<close> as a \<open>partial_function (option)\<close>, its fuel-bounded twin
    \<open>run_fuel\<close>, and the step relation \<open>run_step\<close> adding the SIGINT interrupt.

  \<^item> \<open>Editor\<close>: \<open>editor.c\<close>: the \<open>Editor\<close> struct as the record \<open>editor\<close>
    (extending the \<open>editor_dims\<close> the interpreter reads), \<open>editor_init\<close>,
    \<open>editor_clear_screen\<close>, \<open>editor_scroll\<close>, \<open>editor_refresh\<close>, \<open>editor_print\<close>
    (its loop body split as \<open>print_branch\<close>, \<open>wrap_margin\<close>, \<open>scroll_bottom\<close>),
    \<open>editor_plot\<close>, \<open>editor_set_background_color\<close>, \<open>editor_poke_char\<close> and
    \<open>editor_read_line\<close> as the loop \<open>read_loop\<close> over the keyboard bytes (Enter,
    backspace, arrow keys, printable keys); every function returns the new editor
    and the bytes it writes to the terminal.
  \<^item> \<open>Files\<close>: LOAD and SAVE over a file-system record: \<open>fgets\<close> chunks of at most
    1023 bytes, glibc's \<open>sscanf("%d %[^\n]")\<close> with \<open>strtol\<close>'s clamping and the
    store into an \<open>int\<close>, \<open>fprintf("%d %s\n")\<close>.
  \<^item> \<open>Repl\<close>: \<open>cfbasic.c\<close>: \<open>format_memory_size\<close> (\<open>utils.c\<close>), the banner,
    \<open>is_immediate_command\<close>, \<open>extract_line_number\<close>, \<open>execute_immediate_command\<close>
    (LIST, RUN, NEW, LOAD, SAVE, EXIT, direct mode) and \<open>repl()\<close> as \<open>repl_loop\<close>
    on the record \<open>repl\<close> (interpreter, editor, file system, \<open>stdout\<close>,
    \<open>stderr\<close>). The interface between interpreter and editor: the interpreter's
    \<open>display_event\<close>s are applied to the editor by \<open>show_event\<close>/\<open>show_events\<close>,
    the calls \<open>basic_print\<close>, POKE and DRAW make.
  \<^item> \<open>Terminal\<close>: raw mode (\<open>editor_enable_raw_mode\<close>,
    \<open>editor_disable_raw_mode\<close>) on a record of the \<open>termios\<close> flag words and the
    static \<open>orig_termios\<close>; leaving raw mode restores the saved attributes.
  \<^item> \<open>CommandLine\<close>: \<open>main\<close>'s option loop \<open>parse_args\<close> with \<open>print_usage\<close>,
    \<open>parse_memory_size\<close> with a model of glibc's \<open>strtod\<close> (decimal, hexadecimal,
    INF, NAN), and \<open>main\<close> starting the REPL or running a file.

  \<^bold>\<open>State correspondence.\<close> C strings are \<open>string\<close>s (the NUL terminator is the end
  of the list; \<open>cstr\<close> cuts at an embedded NUL). A \<open>double\<close> is a \<open>real\<close>:
  sums and comparisons are exact, IEEE rounding is not modelled. Pointers into the
  program list are the line numbers of the nodes (unique in a sorted program).
  Calls to the editor, \<open>printf\<close> and \<open>stderr\<close> are events appended to the
  \<open>events\<close> field; \<open>printed\<close> reads back the text. Every raise and early return is
  a branch: \<open>stack_pop\<close> returns \<open>Inl\<close> on an empty stack, GOTO to a missing line
  sets \<open>error_occurred\<close> and emits the error event, a run that never ends is
  \<open>None\<close>.

  \<^bold>\<open>Lemma groups.\<close> Tokenizer: peek restores the lexer, keywords in any case, the
  number and unterminated-string examples, progress of every reader. Stores: the
  invariants are preserved and each operation refines its map operation (also for
  any sequence of edits). Evaluator: termination with enough fuel, fuel independence,
  the coercion examples, the Value invariant, string comparison by the relational
  operators as the lexicographic order (the \<open>strcmp\<close> model refines it).
  Formatting: \<open>%g\<close> agrees with \<open>%d\<close> on integers below \<open>10^6\<close>, so PRINT
  shows such numbers as integers. Interpreter: LIST prints exactly the selected
  lines. Executor: progress (every handler consumes input), the invariant of the
  state (program untouched, names distinct, cursor on a line), PRINT separators,
  IF/GOTO control transfer, POKE storing any value modulo 256 at an address modulo
  65536 and nothing else, DRAW reaching its end point. Run loop: adequacy of fuel,
  invariant of all reachable states with interrupts, the end-to-end example, the
  halt on a GOTO to a missing line from any state, divergence. Allocator: the budget charged by
  allocate/free cycles. Editor: \<open>editor_ok\<close> (a non-empty screen, the cursor on
  it, a buffer of \<open>rows * cols\<close> bytes) is kept by printing; reading a line keeps
  \<open>editor_pending\<close> (valid, or the cursor one row below the screen after a wrap
  on the last row) on every outcome and returns a line only from a valid editor;
  Enter returns the trimmed row; POKE writes one cell inside the buffer; the
  screen-code and colour tables. Files: SAVE then LOAD restores the program.
  REPL: the invariant (valid screen, sorted program) holds up to EXIT; a listed
  line typed back is the same line. Command line: \<open>parse_memory_size\<close> of digits and a
  suffix, with the multipliers 1024, \<open>1024^2\<close>, \<open>1024^3\<close> stated, \<open>main\<close>'s dispatch. Terminal: leaving raw mode restores the saved
  attributes; raw mode clears echo, line buffering and signals. Across components
  (this theory): a line LIST prints, typed back at the REPL, leaves the REPL state
  unchanged (REPL, \<open>extract_line_number\<close>, the program store).

  \<^bold>\<open>Fuel and bounds.\<close> The evaluator gets \<open>2 * rem lx + 2\<close> units: each call
  consumes a token or stops at the end, and \<open>eval_fuel_enough\<close> proves this enough.
  The Bresenham loop gets \<open>dx + dy + 1\<close> rounds: the distance still to go
  \<open>u + v\<close> falls by at least one per round (\<open>bres_step\<close>). The run loop has no
  bound; \<open>run_fuel\<close> with any number of rounds agrees with \<open>run_loop\<close> whenever it
  returns, and the examples use 3 rounds, which the two-line programs need. The REPL loop and the editor's
  read loop recurse on the keyboard bytes left (with one extra round for a pending
  break notice), so they are total functions.

  \<^bold>\<open>Findings.\<close> A jump to the current line is taken for a fall-through
  (\<open>run_self_jump_falls_through\<close>); the error flag of a failed direct-mode GOTO
  leaks into the next RUN (\<open>direct_mode_error_leaks\<close>); GOTO does not end its line
  and a true IF ... THEN also runs the ELSE part; a trailing \<open>;\<close> still prints a
  newline; \<open>safe_free\<close> never lowers \<open>memory_used\<close>
  (\<open>freed_blocks_exhaust_budget\<close>). Editor: Enter after typing to the end of the
  last row reads past the screen buffer (\<open>read_line_overruns\<close>), and Right then
  Backspace there writes one byte past it (\<open>read_line_backspace_overruns\<close>: the
  model's \<open>backspace_key\<close> returns \<open>None\<close> for a write outside the buffer
  and the read loop ends with \<open>Read_overrun\<close>; the write of \<open>insert_key\<close> is
  proved inside the buffer); a line as wide
  as the screen is lost; a terminal of 0 rows gives an invalid editor; screen codes
  95 and 127 reach the terminal as DEL. Line numbers: \<open>strtol\<close>'s \<open>long\<close> is
  stored into an \<open>int\<close>, modulo \<open>2^32\<close> for every digit string
  (\<open>extract_line_number_wraps\<close>), and LOAD does the same and accepts a
  number directly followed by its text (\<open>load_line_parse_lenient\<close>). Command line: \<open>-M\<close> ignores what follows the suffix and converts an
  out-of-range size to \<open>size_t\<close> without a check.

  \<^bold>\<open>Not modelled.\<close> A failing \<open>tcsetattr\<close>, \<open>clear_screen\<close>
  (\<open>system("clear")\<close>), signal registration and the freeing functions other than
  \<open>editor_free\<close> (\<open>interpreter_free\<close>, \<open>token_free\<close>, \<open>lexer_free\<close>: memory
  is not modelled), the array variants of \<open>VarType\<close>
  (never created), \<open>error_message\<close> (never set) and \<open>srand\<close>. Failure of the
  allocator inside the interpreter is not modelled: all allocations there are taken
  to succeed. IEEE rounding of doubles (\<open>strtod\<close>, \<open>atof\<close>, \<open>%g\<close>) is not
  modelled: values are exact reals. C \<open>int\<close> overflow in \<open>draw_line\<close>'s scaling
  is not modelled (unbounded \<open>int\<close>).
\<close>

section \<open>Properties across components\<close>

text \<open>
  C35: a line as LIST prints it, typed back at the REPL, changes nothing: the REPL
  reads its number and text (\<open>extract_line_number\<close>), and \<open>program_add_line\<close>
  replaces the line by itself, so the sorted program and the whole REPL state stay
  as they were.
\<close>

theorem listed_line_reentered_keeps_state:
  assumes "program_ok (program (rp_interp st))" "l \<in> set (program (rp_interp st))" "file_line_ok l"
  shows "repl_line st (butlast (list_line_text l)) = Some st"
proof -
  have ex: "extract_line_number (butlast (list_line_text l)) = (line_number l, Some (line_text l))"
    using list_line_reentered [OF assms(3)] .
  have ne: "butlast (list_line_text l) \<noteq> []"
    using ex by (auto simp: extract_line_number_def skip_blanks_def c_isdigit_def)
  have fl: "0 \<le> line_number l" "line_text l \<noteq> []" "cstr (line_text l) = line_text l"
    using assms(3) by (auto simp: file_line_ok_def cstr_no_NUL)
  have "program_add_line (program (rp_interp st)) (line_number l) (line_text l) = program (rp_interp st)"
    using program_add_line_present [OF assms(1,2) fl(2,3)] .
  then show ?thesis using ex ne fl(1) by (simp add: repl_line_def)
qed

lemma listed_line_reentered_keeps_state_witness:
  "repl_line \<lparr>rp_interp = interpreter_init\<lparr>program := [\<lparr>line_number = 10, line_text = ''PRINT 1''\<rparr>]\<rparr>,
              rp_editor = editor_init (Some (2, 16)), rp_fs = \<lparr>files = \<lambda>_. None, writable = \<lambda>_. True\<rparr>,
              rp_out = [], rp_err = []\<rparr> (butlast (list_line_text \<lparr>line_number = 10, line_text = ''PRINT 1''\<rparr>)) =
   Some \<lparr>rp_interp = interpreter_init\<lparr>program := [\<lparr>line_number = 10, line_text = ''PRINT 1''\<rparr>]\<rparr>,
         rp_editor = editor_init (Some (2, 16)), rp_fs = \<lparr>files = \<lambda>_. None, writable = \<lambda>_. True\<rparr>,
         rp_out = [], rp_err = []\<rparr>"
proof -
  have "file_line_ok \<lparr>line_number = 10, line_text = ''PRINT 1''\<rparr>" by code_simp
  then show ?thesis
    by (intro listed_line_reentered_keeps_state) simp_all
qed

end
